theory Spec2Isabelle
  imports Complex_Main "HOL-Library.Multiset" "HOL-Library.Sublist"
    "HOL-Library.Char_ord" "HOL-Library.List_Lexorder" "HOL-Library.Product_Lexorder"
begin

section \<open>The dataset\<close>

text \<open>
  The program is a script over one pandas DataFrame, \<^verbatim>\<open>df = pd.read_csv(...)\<close>.
  A cell of the frame is a number, a text or missing (pandas' NaN). Numbers are float64
  in the program and reals here (infinite values are left out): comparing two floats
  gives what comparing the reals gives, so filtering and ordering are modelled exactly.
  The rounding of float64 arithmetic is modelled where a property depends on it, in the
  correlation coefficient; the column means are the exact ones.
\<close>

datatype cell = Num (the_num: real) | Str string | NaN

datatype error = KeyError string | TypeError | ValueError

text \<open>A row gives a cell for every column name; only the names in \<open>columns\<close> are
  columns of the frame.\<close>

type_synonym row = "string \<Rightarrow> cell"

type_synonym series = "cell list"

record dataframe =
  columns :: "string list"
  rows :: "row list"

text \<open>\<^verbatim>\<open>df[col]\<close>: the column as a series; KeyError when the frame has no such column.\<close>

definition getitem :: "dataframe \<Rightarrow> string \<Rightarrow> error + series" where
  "getitem df col =
     (if col \<in> set (columns df) then Inr (map (\<lambda>r. r col) (rows df))
      else Inl (KeyError col))"

text \<open>\<^verbatim>\<open>ser == value\<close> with a text value: the elementwise comparison.\<close>

definition eq_mask :: "series \<Rightarrow> string \<Rightarrow> bool list" where
  "eq_mask ser v = map (\<lambda>c. c = Str v) ser"

text \<open>\<^verbatim>\<open>df[mask]\<close>: the rows where the boolean mask holds, in the frame's order.\<close>

definition getitem_mask :: "dataframe \<Rightarrow> bool list \<Rightarrow> dataframe" where
  "getitem_mask df msk = df\<lparr>rows := map fst (filter snd (zip (rows df) msk))\<rparr>"

section \<open>Sorting\<close>

text \<open>
  The keys of a sort are compared as Python compares them: numbers by value, texts
  lexicographically by character code; a number and a text cannot be compared. A key
  array is comparable when it holds numbers only or texts only.
\<close>

fun cell_le :: "cell \<Rightarrow> cell \<Rightarrow> bool" where
  "cell_le (Num x) (Num y) = (x \<le> y)"
| "cell_le (Str a) (Str b) = (a \<le> b)"
| "cell_le a b = False"

definition comparable :: "cell list \<Rightarrow> bool" where
  "comparable xs \<longleftrightarrow> (\<forall>c \<in> set xs. is_Num c) \<or> (\<forall>c \<in> set xs. is_Str c)"

text \<open>
  \<^verbatim>\<open>sort_values(by=metric, ascending=False)\<close> is called without \<^verbatim>\<open>kind\<close>, so pandas
  uses its default, \<^verbatim>\<open>kind='quicksort'\<close>, and hands the present keys to numpy's argsort
  of that kind. The argsort routine is numpy's and not part of the repository; it is a
  parameter of the model. What numpy promises of every kind is \<open>argsort_spec\<close>: on a
  comparable array the result is a permutation of the positions that lists the values in
  ascending order. Only the kinds \<^verbatim>\<open>'mergesort'\<close> and \<^verbatim>\<open>'stable'\<close> promise
  \<open>stable_kind\<close> as well: equal values are listed by position. The default kind does
  not: \<open>np_quicksort\<close> below is what it does on short arrays of numbers.
\<close>

type_synonym kind = "cell list \<Rightarrow> nat list"

definition argsort_spec :: "kind \<Rightarrow> bool" where
  "argsort_spec kind \<longleftrightarrow>
     (\<forall>xs. comparable xs \<longrightarrow>
        mset (kind xs) = mset [0..<length xs] \<and> sorted_wrt cell_le (map (\<lambda>i. xs ! i) (kind xs)))"

definition stable_kind :: "kind \<Rightarrow> bool" where
  "stable_kind kind \<longleftrightarrow>
     (\<forall>xs v. comparable xs \<longrightarrow>
        filter (\<lambda>i. xs ! i = v) (kind xs) = filter (\<lambda>i. xs ! i = v) [0..<length xs])"

text \<open>
  pandas' \<^verbatim>\<open>nargsort\<close> (with \<^verbatim>\<open>na_position='last'\<close>, the default): the positions of the
  missing keys are set aside and appended at the end in their own order; for a
  descending sort the present keys are reversed, argsorted ascending, and the
  resulting positions reversed again.
\<close>

definition nargsort :: "kind \<Rightarrow> series \<Rightarrow> bool \<Rightarrow> nat list" where
  "nargsort kind items ascending =
     (let idx = [0..<length items];
          non_nan_idx = filter (\<lambda>i. items ! i \<noteq> NaN) idx;
          nan_idx = filter (\<lambda>i. items ! i = NaN) idx;
          non_nans = map (\<lambda>i. items ! i) non_nan_idx;
          non_nans' = (if ascending then non_nans else rev non_nans);
          non_nan_idx' = (if ascending then non_nan_idx else rev non_nan_idx);
          indexer = map (\<lambda>j. non_nan_idx' ! j) (kind non_nans');
          indexer' = (if ascending then indexer else rev indexer)
      in indexer' @ nan_idx)"

text \<open>
  \<^verbatim>\<open>df.sort_values(by=col, ascending=...)\<close>: KeyError when the column is absent, and
  TypeError when the present keys hold both numbers and text, which the argsort cannot
  compare. The rows are taken in the order of the positions that \<open>nargsort\<close> returns.
\<close>

definition sort_values :: "kind \<Rightarrow> dataframe \<Rightarrow> string \<Rightarrow> bool \<Rightarrow> error + dataframe" where
  "sort_values kind df by ascending =
     (case getitem df by of
        Inl e \<Rightarrow> Inl e
      | Inr k \<Rightarrow>
          if \<not> comparable (filter (\<lambda>c. c \<noteq> NaN) k) then Inl TypeError
          else Inr (df\<lparr>rows := map (\<lambda>i. rows df ! i) (nargsort kind k ascending)\<rparr>))"

text \<open>
  The order of the keys that a descending sort with \<^verbatim>\<open>na_position='last'\<close> aims at:
  \<open>descending a b\<close> says that a key \<open>a\<close> may come before a key \<open>b\<close>, which is so when
  \<open>b\<close> is missing, or both are present and \<open>b\<close> compares below or equal to \<open>a\<close>.
\<close>

fun descending :: "cell \<Rightarrow> cell \<Rightarrow> bool" where
  "descending a NaN = True"
| "descending (Num x) (Num y) = (y \<le> x)"
| "descending (Str a) (Str b) = (b \<le> a)"
| "descending a b = False"

text \<open>\<^verbatim>\<open>df.head(n)\<close>: the first \<open>n\<close> rows; for negative \<open>n\<close>, all rows but the last \<open>-n\<close>.\<close>

definition head :: "dataframe \<Rightarrow> int \<Rightarrow> dataframe" where
  "head df n =
     df\<lparr>rows := (if 0 \<le> n then take (nat n) (rows df)
                 else take (length (rows df) - nat (- n)) (rows df))\<rparr>"

section \<open>Filter and rank\<close>

text \<open>
  \<^verbatim>\<open>filtered_df = df[df['Continent'] == continent]\<close>
  \<^verbatim>\<open>filtered_sorted = filtered_df.sort_values(by=metric, ascending=False).head(top_n)\<close>
\<close>

definition filtered_df :: "dataframe \<Rightarrow> string \<Rightarrow> error + dataframe" where
  "filtered_df df continent =
     (case getitem df ''Continent'' of
        Inl e \<Rightarrow> Inl e
      | Inr ser \<Rightarrow> Inr (getitem_mask df (eq_mask ser continent)))"

definition filtered_sorted ::
    "kind \<Rightarrow> dataframe \<Rightarrow> string \<Rightarrow> string \<Rightarrow> int \<Rightarrow> error + dataframe" where
  "filtered_sorted kind df continent metric top_n =
     (case filtered_df df continent of
        Inl e \<Rightarrow> Inl e
      | Inr fdf \<Rightarrow>
          (case sort_values kind fdf metric False of
             Inl e \<Rightarrow> Inl e
           | Inr sorted_df \<Rightarrow> Inr (head sorted_df top_n)))"

text \<open>The rows of a frame whose Continent is \<open>c\<close>, in the frame's order, and what it
  means for a column to be numeric: no cell of it holds text.\<close>

definition matching_rows :: "dataframe \<Rightarrow> string \<Rightarrow> row list" where
  "matching_rows df c = filter (\<lambda>r. r ''Continent'' = Str c) (rows df)"

definition numeric_column :: "dataframe \<Rightarrow> string \<Rightarrow> bool" where
  "numeric_column df col \<longleftrightarrow> (\<forall>r \<in> set (rows df). \<not> is_Str (r col))"

text \<open>The rows of the ranking before \<^verbatim>\<open>head\<close>: the matching rows taken in the order
  that \<open>nargsort\<close> gives for their keys.\<close>

definition ranked_rows :: "kind \<Rightarrow> dataframe \<Rightarrow> string \<Rightarrow> string \<Rightarrow> row list" where
  "ranked_rows kind df c m =
     map (\<lambda>i. matching_rows df c ! i) (nargsort kind (map (\<lambda>r. r m) (matching_rows df c)) False)"

text \<open>
  Ties broken by dataset order: for every metric value, the rows of the result \<open>R\<close> with
  that value are, in the order of \<open>R\<close>, the first of the matching rows of the frame with
  that value, in the order of the frame.
\<close>

definition ties_in_dataset_order :: "dataframe \<Rightarrow> string \<Rightarrow> string \<Rightarrow> dataframe \<Rightarrow> bool" where
  "ties_in_dataset_order df c m R \<longleftrightarrow>
     (\<forall>v. prefix (filter (\<lambda>r. r m = v) (rows R)) (filter (\<lambda>r. r m = v) (matching_rows df c)))"

section \<open>Correlation and column means\<close>

text \<open>
  \<^verbatim>\<open>corr = df[x].corr(df[y])\<close>. pandas pairs the two columns row by row, answers NaN
  for an empty column, converts both columns to float64, drops the pairs in which a value
  is missing, answers NaN when no pair is left, and hands the remaining pairs to numpy's
  \<^verbatim>\<open>corrcoef\<close>. That routine is outside the repository and a parameter \<open>cc\<close> here;
  \<open>np_corrcoef\<close> below is what it computes. The conversion raises ValueError for a text
  that does not spell a float and reads a text that does (such as \<^verbatim>\<open>'1_0'\<close>) as that
  float; reading text is not modelled, and \<open>series_corr\<close> raises ValueError for every
  text cell. The properties of the correlation below are stated for columns without
  text, where the model and the program agree. \<open>describe_relationship\<close> is modelled up
  to the coefficient; the sentence that the program formats around it (with the
  coefficient to two decimals) is left out.
\<close>

type_synonym corrcoef = "real list \<Rightarrow> real list \<Rightarrow> cell"

definition series_corr :: "corrcoef \<Rightarrow> series \<Rightarrow> series \<Rightarrow> error + cell" where
  "series_corr cc a b =
     (if a = [] then Inr NaN
      else if (\<exists>c \<in> set a. is_Str c) \<or> (\<exists>c \<in> set b. is_Str c) then Inl ValueError
      else (let valid = filter (\<lambda>(x, y). x \<noteq> NaN \<and> y \<noteq> NaN) (zip a b)
            in if valid = [] then Inr NaN
               else Inr (cc (map (\<lambda>(x, y). the_num x) valid) (map (\<lambda>(x, y). the_num y) valid))))"

definition describe_relationship :: "corrcoef \<Rightarrow> dataframe \<Rightarrow> string \<Rightarrow> string \<Rightarrow> error + cell" where
  "describe_relationship cc df x y =
     (case getitem df x of
        Inl e \<Rightarrow> Inl e
      | Inr a \<Rightarrow> (case getitem df y of Inl e \<Rightarrow> Inl e | Inr b \<Rightarrow> series_corr cc a b))"

text \<open>
  The pairs that reach \<^verbatim>\<open>corrcoef\<close>, for columns without text: the rows in which both
  values are present, in the frame's order.
\<close>

definition valid_pairs :: "dataframe \<Rightarrow> string \<Rightarrow> string \<Rightarrow> (real \<times> real) list" where
  "valid_pairs df x y =
     map (\<lambda>(a, b). (the_num a, the_num b))
       (filter (\<lambda>(a, b). a \<noteq> NaN \<and> b \<noteq> NaN)
          (zip (map (\<lambda>r. r x) (rows df)) (map (\<lambda>r. r y) (rows df))))"

subsection \<open>The coefficient in float64\<close>

text \<open>
  A float64 has a significand of 53 bits. \<open>fl x\<close> is the float nearest to the real \<open>x\<close>,
  a tie going to the even significand, as every float64 operation of numpy rounds its
  exact result. The exponent is not bounded here: overflow to infinity and underflow
  towards zero are left out, and so is the sign of a zero.
\<close>

definition round_even :: "real \<Rightarrow> int" where
  "round_even y =
     (let f = \<lfloor>y\<rfloor>; r = y - of_int f
      in if r < 1/2 then f else if 1/2 < r then f + 1 else if even f then f else f + 1)"

definition fl :: "real \<Rightarrow> real" where
  "fl x =
     (if x = 0 then 0
      else (let ulp = 2 powr (of_int \<lfloor>log 2 \<bar>x\<bar>\<rfloor> - 52)
            in of_int (round_even (x / ulp)) * ulp))"

text \<open>
  \<^verbatim>\<open>np.corrcoef(a, b)[0, 1]\<close> takes the covariance matrix \<^verbatim>\<open>c\<close> of \<^verbatim>\<open>np.cov\<close> and
  divides: \<^verbatim>\<open>stddev = sqrt(diag(c))\<close>, \<^verbatim>\<open>c /= stddev[:, None]\<close>, \<^verbatim>\<open>c /= stddev[None, :]\<close>,
  and clips the result to the interval from -1 to 1. \<^verbatim>\<open>np.cov\<close> subtracts from each
  column its mean (\<^verbatim>\<open>X -= avg[:, None]\<close>), takes the dot products of the deviations
  (\<^verbatim>\<open>c = dot(X, X.T)\<close>) and scales them (\<^verbatim>\<open>c *= np.true_divide(1, n - 1)\<close>).

  The order in which numpy adds the numbers of a mean, and the BLAS library those of a
  dot product, depends on the length of the array and on the library; the mean \<open>avg\<close>
  and the dot product \<open>dot\<close> are parameters. One value of \<open>dot\<close> stands for an entry
  of the matrix, so the three entries are equal when the two columns are. What is used
  of a dot product is \<open>dot_of_zeros\<close>: it is 0 when one of the vectors is all zeros.
\<close>

type_synonym average = "real list \<Rightarrow> real"

type_synonym dot = "real list \<Rightarrow> real list \<Rightarrow> real"

definition dot_of_zeros :: "dot \<Rightarrow> bool" where
  "dot_of_zeros dot \<longleftrightarrow>
     (\<forall>xs ys. (\<forall>x \<in> set xs. x = 0) \<or> (\<forall>y \<in> set ys. y = 0) \<longrightarrow> dot xs ys = 0)"

definition deviations :: "average \<Rightarrow> real list \<Rightarrow> real list" where
  "deviations avg xs = map (\<lambda>x. fl (x - avg xs)) xs"

text \<open>An entry of the covariance matrix, for at least two observations.\<close>

definition np_cov :: "average \<Rightarrow> dot \<Rightarrow> real list \<Rightarrow> real list \<Rightarrow> real" where
  "np_cov avg dot xs ys =
     fl (dot (deviations avg xs) (deviations avg ys) * fl (1 / real (length xs - 1)))"

text \<open>
  The divisions are float64 divisions: a finite number, an infinity or NaN. The square
  root of a negative number is NaN; x / 0 is NaN for x = 0 and an infinity otherwise.
  Clipping maps the infinities to 1 and -1 and leaves NaN.
\<close>

datatype fp = Fin real | PInf | NInf | FNaN

definition fp_sqrt :: "real \<Rightarrow> fp" where
  "fp_sqrt v = (if v < 0 then FNaN else Fin (fl (sqrt v)))"

fun fp_div :: "fp \<Rightarrow> fp \<Rightarrow> fp" where
  "fp_div (Fin c) (Fin s) =
     (if s = 0 then (if c = 0 then FNaN else if 0 < c then PInf else NInf)
      else Fin (fl (c / s)))"
| "fp_div (Fin c) PInf = Fin 0"
| "fp_div (Fin c) NInf = Fin 0"
| "fp_div PInf (Fin s) = (if s < 0 then NInf else PInf)"
| "fp_div NInf (Fin s) = (if s < 0 then PInf else NInf)"
| "fp_div a b = FNaN"

fun fp_clip :: "fp \<Rightarrow> cell" where
  "fp_clip (Fin r) = Num (min 1 (max (- 1) r))"
| "fp_clip PInf = Num 1"
| "fp_clip NInf = Num (- 1)"
| "fp_clip FNaN = NaN"

text \<open>
  With a single observation the deviations are 0 and the factor \<^verbatim>\<open>1 / (n - 1)\<close> is
  infinite, so every entry of the matrix, and the coefficient, is NaN.
\<close>

definition np_corrcoef :: "average \<Rightarrow> dot \<Rightarrow> corrcoef" where
  "np_corrcoef avg dot xs ys =
     (if length xs < 2 then NaN
      else fp_clip (fp_div (fp_div (Fin (np_cov avg dot xs ys)) (fp_sqrt (np_cov avg dot xs xs)))
                           (fp_sqrt (np_cov avg dot ys ys))))"

subsection \<open>Column means\<close>

text \<open>
  \<^verbatim>\<open>df[col].mean()\<close>: the mean of the present values, NaN when there is none; a column
  holding text raises TypeError. The mean is the exact one, not the rounded float64.
\<close>

definition series_mean :: "series \<Rightarrow> error + cell" where
  "series_mean ser =
     (if \<exists>c \<in> set ser. is_Str c then Inl TypeError
      else (let xs = map the_num (filter is_Num ser)
            in if xs = [] then Inr NaN else Inr (Num (sum_list xs / real (length xs)))))"

text \<open>
  \<^verbatim>\<open>def safe_get_columns(cols):\<close>
  \<^verbatim>\<open>    try: return [df[col].mean() for col in cols]\<close>
  \<^verbatim>\<open>    except KeyError as e: return [0 for _ in cols]\<close>
  The comprehension stops at the first lookup or mean that raises; only KeyError is
  caught.
\<close>

fun column_means :: "dataframe \<Rightarrow> string list \<Rightarrow> error + cell list" where
  "column_means df [] = Inr []"
| "column_means df (col # cols) =
     (case getitem df col of
        Inl e \<Rightarrow> Inl e
      | Inr ser \<Rightarrow>
          (case series_mean ser of
             Inl e \<Rightarrow> Inl e
           | Inr m \<Rightarrow>
               (case column_means df cols of
                  Inl e \<Rightarrow> Inl e
                | Inr ms \<Rightarrow> Inr (m # ms))))"

definition safe_get_columns :: "dataframe \<Rightarrow> string list \<Rightarrow> error + cell list" where
  "safe_get_columns df cols =
     (case column_means df cols of
        Inl (KeyError k) \<Rightarrow> Inr (map (\<lambda>_. Num 0) cols)
      | Inl e \<Rightarrow> Inl e
      | Inr ms \<Rightarrow> Inr ms)"

text \<open>\<^verbatim>\<open>col_stats = dict(zip(['Sales', 'Profit'], safe_get_columns([...])))\<close>\<close>

definition col_stats :: "dataframe \<Rightarrow> error + (string \<rightharpoonup> cell)" where
  "col_stats df =
     (case safe_get_columns df [''Sales ($billion)'', ''Profits ($billion)''] of
        Inl e \<Rightarrow> Inl e
      | Inr ms \<Rightarrow> Inr (map_of (zip [''Sales'', ''Profit''] ms)))"

section \<open>The frames as objects\<close>

text \<open>
  Every frame of the script is an object: \<^verbatim>\<open>df\<close> is loaded once and kept, and
  \<^verbatim>\<open>df[mask]\<close>, \<^verbatim>\<open>sort_values\<close> (called without \<^verbatim>\<open>inplace\<close>) and \<^verbatim>\<open>head\<close> each
  return a new frame. The store lists the frames by address; \<open>d\<close> is the address of
  \<^verbatim>\<open>df\<close>. A call of one of the three query operations reads the store and may extend it.
\<close>

type_synonym store = "dataframe list"

definition alloc :: "dataframe \<Rightarrow> store \<Rightarrow> nat \<times> store" where
  "alloc f s = (length s, s @ [f])"

definition rank_by_metric ::
    "kind \<Rightarrow> nat \<Rightarrow> string \<Rightarrow> string \<Rightarrow> int \<Rightarrow> store \<Rightarrow> (error + nat) \<times> store" where
  "rank_by_metric kind d continent metric top_n s =
     (case filtered_df (s ! d) continent of
        Inl e \<Rightarrow> (Inl e, s)
      | Inr fdf \<Rightarrow>
          (let (a1, s1) = alloc fdf s
           in case sort_values kind (s1 ! a1) metric False of
                Inl e \<Rightarrow> (Inl e, s1)
              | Inr sorted_df \<Rightarrow>
                  (let (a2, s2) = alloc sorted_df s1;
                       (a3, s3) = alloc (head (s2 ! a2) top_n) s2
                   in (Inr a3, s3))))"

datatype call =
    RankByMetric string string int
  | Correlation string string
  | SafeColumnMeans "string list"

datatype outcome = Ranked nat | Coefficient cell | Means "cell list"

fun exec_call :: "kind \<Rightarrow> corrcoef \<Rightarrow> nat \<Rightarrow> call \<Rightarrow> store \<Rightarrow> (error + outcome) \<times> store" where
  "exec_call kind cc d (RankByMetric c m n) s =
     (let (r, s') = rank_by_metric kind d c m n s in (map_sum id Ranked r, s'))"
| "exec_call kind cc d (Correlation x y) s =
     (map_sum id Coefficient (describe_relationship cc (s ! d) x y), s)"
| "exec_call kind cc d (SafeColumnMeans cols) s =
     (map_sum id Means (safe_get_columns (s ! d) cols), s)"

fun run_calls ::
    "kind \<Rightarrow> corrcoef \<Rightarrow> nat \<Rightarrow> call list \<Rightarrow> store \<Rightarrow> (error + outcome) list \<times> store" where
  "run_calls kind cc d [] s = ([], s)"
| "run_calls kind cc d (c # cs) s =
     (let (r, s1) = exec_call kind cc d c s;
          (rs, s2) = run_calls kind cc d cs s1
      in (r # rs, s2))"

text \<open>What a caller sees of an output: for a ranking, the frame at the returned address.\<close>

datatype observed = Frame dataframe | Scalar cell | Scalars "cell list"

fun observe :: "store \<Rightarrow> error + outcome \<Rightarrow> error + observed" where
  "observe s (Inl e) = Inl e"
| "observe s (Inr (Ranked a)) = Inr (Frame (s ! a))"
| "observe s (Inr (Coefficient c)) = Inr (Scalar c)"
| "observe s (Inr (Means ms)) = Inr (Scalars ms)"

section \<open>Library routines and datasets to run the model on\<close>

text \<open>
  \<open>stable_argsort\<close> is an insertion sort of the positions by their values (\<open>order_key\<close>
  turns a number or a text into a key of one linear order). It meets \<open>argsort_spec\<close> and
  lists equal values by position, as numpy's stable kinds do.
\<close>

fun order_key :: "cell \<Rightarrow> real \<times> string" where
  "order_key (Num x) = (x, [])"
| "order_key (Str a) = (0, a)"
| "order_key NaN = (0, [])"

definition stable_argsort :: kind where
  "stable_argsort xs = sort_key (\<lambda>i. order_key (xs ! i)) [0..<length xs]"

text \<open>
  numpy's argsort of kind \<^verbatim>\<open>'quicksort'\<close> for float64 keys, as built for x86 processors
  with AVX2 or AVX-512: the vectorised sort of the x86-simd-sort library. With the four
  lanes of an AVX2 register, an array of at most four keys is sorted by one network.
  The keys are loaded into the lanes, each with its position, the unused lanes holding
  infinity (\<open>None\<close> here); three stages of compare-and-exchange follow, on the lanes
  0-1 and 2-3, then 0-3 and 1-2, then 0-1 and 2-3. A compare-and-exchange leaves the
  smaller key in the lower lane, and a lane whose key stays keeps its position, so two
  equal keys are not exchanged with each other. The network orders the keys but not
  equal keys by position: the second stage, which exchanges lane 0 with lane 3 and lane
  1 with lane 2, reverses two equal keys that it moves. (With the eight lanes of AVX-512
  the network has three more stages, which change nothing for at most four keys. A build
  without these instructions sorts a short array by insertion, in order of position.)
  What numpy does on longer arrays and on text keys is not modelled: it is the parameter
  \<open>rest\<close>.
\<close>

type_synonym lane = "real option \<times> nat"

fun lane_le :: "real option \<Rightarrow> real option \<Rightarrow> bool" where
  "lane_le a None = True"
| "lane_le None (Some y) = False"
| "lane_le (Some x) (Some y) = (x \<le> y)"

definition cmpx :: "lane \<Rightarrow> lane \<Rightarrow> lane \<times> lane" where
  "cmpx a b = (if lane_le (fst a) (fst b) then (a, b) else (b, a))"

definition network4 :: "lane list \<Rightarrow> lane list" where
  "network4 l =
     (let (a0, a1) = cmpx (l ! 0) (l ! 1); (a2, a3) = cmpx (l ! 2) (l ! 3);
          (b0, b3) = cmpx a0 a3; (b1, b2) = cmpx a1 a2;
          (c0, c1) = cmpx b0 b1; (c2, c3) = cmpx b2 b3
      in [c0, c1, c2, c3])"

definition np_quicksort :: "kind \<Rightarrow> kind" where
  "np_quicksort rest xs =
     (if length xs \<le> 4 \<and> (\<forall>c \<in> set xs. is_Num c)
      then map snd (take (length xs)
             (network4 (map (\<lambda>i. (Some (the_num (xs ! i)), i)) [0..<length xs]
                        @ replicate (4 - length xs) (None, 0))))
      else rest xs)"

text \<open>
  The mean and the dot product as numpy computes them on arrays of fewer than 8 numbers:
  the numbers are added one after the other, every sum and product rounded. The
  datasets below are that short, and their products and partial sums of products are
  floats, so that any other order of adding them gives the same values.
\<close>

definition seq_sum :: "real list \<Rightarrow> real" where
  "seq_sum xs = foldl (\<lambda>a x. fl (a + x)) 0 xs"

definition seq_average :: average where
  "seq_average xs = fl (seq_sum xs / real (length xs))"

definition seq_dot :: dot where
  "seq_dot xs ys = seq_sum (map (\<lambda>(x, y). fl (x * y)) (zip xs ys))"

text \<open>A row read from a line of the CSV: the listed cells, and missing everywhere else.\<close>

definition mk_row :: "(string \<times> cell) list \<Rightarrow> row" where
  "mk_row kv = (\<lambda>col. case map_of kv col of Some v \<Rightarrow> v | None \<Rightarrow> NaN)"

definition company :: "string \<Rightarrow> string \<Rightarrow> real \<Rightarrow> row" where
  "company name cont sales =
     mk_row [(''Company'', Str name), (''Continent'', Str cont), (''Sales ($billion)'', Num sales)]"

definition demo_columns :: "string list" where
  "demo_columns = [''Company'', ''Continent'', ''Sales ($billion)'']"

definition demo_df :: dataframe where
  "demo_df = \<lparr>columns = demo_columns,
               rows = [company ''A'' ''Asia'' 10, company ''B'' ''Asia'' 30, company ''C'' ''Europe'' 20]\<rparr>"

definition ties_df :: dataframe where
  "ties_df = \<lparr>columns = demo_columns,
               rows = [company ''A'' ''Asia'' 10, company ''B'' ''Asia'' 10]\<rparr>"

definition boundary_df :: dataframe where
  "boundary_df = \<lparr>columns = demo_columns,
                   rows = [company ''A'' ''Asia'' 10, company ''B'' ''Asia'' 30,
                           company ''C'' ''Europe'' 20, company ''D'' ''Asia'' 20,
                           company ''E'' ''Asia'' 30]\<rparr>"

text \<open>Four rows of Asia with two pairs of equal sales, the smaller sales first.\<close>

definition ties4_df :: dataframe where
  "ties4_df = \<lparr>columns = demo_columns,
                rows = [company ''A'' ''Asia'' 10, company ''B'' ''Asia'' 10,
                        company ''C'' ''Asia'' 20, company ''D'' ''Asia'' 20]\<rparr>"

text \<open>
  Frames with the sales and the profits of each row. In \<open>spread_df\<close> the sales are 0 and
  2 and the profits constant. In \<open>tenths_df\<close> the sales are constant: \<open>tenth\<close> is the
  float64 that the text \<^verbatim>\<open>0.1\<close> of a CSV file is read as.
\<close>

definition figures :: "real \<Rightarrow> real \<Rightarrow> row" where
  "figures sales profits =
     mk_row [(''Sales ($billion)'', Num sales), (''Profits ($billion)'', Num profits)]"

definition figures_columns :: "string list" where
  "figures_columns = [''Sales ($billion)'', ''Profits ($billion)'']"

definition spread_df :: dataframe where
  "spread_df = \<lparr>columns = figures_columns, rows = [figures 0 1, figures 2 1]\<rparr>"

definition tenth :: real where
  "tenth = 3602879701896397 / 36028797018963968"

definition tenths_df :: dataframe where
  "tenths_df = \<lparr>columns = figures_columns,
                 rows = [figures tenth 1, figures tenth 2, figures tenth 3]\<rparr>"

section \<open>Properties\<close>

subsection \<open>Filtering\<close>

lemma mask_filter:
  "map fst (filter snd (zip xs (map (\<lambda>c. c = v) (map f xs)))) = filter (\<lambda>r. f r = v) xs"
  by (induction xs) auto

lemma filtered_df_rows:
  "''Continent'' \<in> set (columns df) \<Longrightarrow>
   filtered_df df c = Inr (df\<lparr>rows := matching_rows df c\<rparr>)"
  unfolding filtered_df_def getitem_def getitem_mask_def eq_mask_def matching_rows_def
  by (simp only: if_True sum.case mask_filter)

subsection \<open>What the argsort contract gives\<close>

lemma mset_map_nth:
  assumes "mset p = mset [0..<length ys]"
  shows "mset (map (\<lambda>j. ys ! j) p) = mset ys"
proof -
  have "mset (map (\<lambda>j. ys ! j) p) = image_mset (\<lambda>j. ys ! j) (mset p)" by simp
  also have "\<dots> = mset (map (\<lambda>j. ys ! j) [0..<length ys])" using assms by simp
  also have "\<dots> = mset ys" by (simp add: map_nth)
  finally show ?thesis .
qed

lemma argsort_spec_mset:
  "argsort_spec kind \<Longrightarrow> comparable xs \<Longrightarrow> mset (kind xs) = mset [0..<length xs]"
  by (simp add: argsort_spec_def)

lemma argsort_spec_sorted:
  "argsort_spec kind \<Longrightarrow> comparable xs \<Longrightarrow> sorted_wrt cell_le (map (\<lambda>i. xs ! i) (kind xs))"
  by (simp add: argsort_spec_def)

lemma argsort_spec_set:
  assumes "argsort_spec kind" and "comparable xs"
  shows "set (kind xs) = {0..<length xs}"
  using mset_eq_setD[OF argsort_spec_mset[OF assms]] by simp

lemma mset_partition_filter:
  "mset (filter P xs) + mset (filter (\<lambda>x. \<not> P x) xs) = mset xs"
  by (induction xs) auto

lemma present_keys:
  "map (\<lambda>i. items ! i) (filter (\<lambda>i. items ! i \<noteq> NaN) [0..<length items])
     = filter (\<lambda>c. c \<noteq> NaN) items"
proof -
  have "filter (\<lambda>c. c \<noteq> NaN) (map (\<lambda>i. items ! i) [0..<length items])
      = map (\<lambda>i. items ! i) (filter (\<lambda>i. items ! i \<noteq> NaN) [0..<length items])"
    by (simp add: filter_map comp_def)
  then show ?thesis by (simp only: map_nth)
qed

lemma comparable_rev: "comparable (rev xs) = comparable xs"
  by (simp add: comparable_def)

subsection \<open>The descending \<open>nargsort\<close>\<close>

lemma nargsort_desc:
  "nargsort kind items False =
     rev (map (\<lambda>j. rev (filter (\<lambda>i. items ! i \<noteq> NaN) [0..<length items]) ! j)
            (kind (map (\<lambda>i. items ! i)
                     (rev (filter (\<lambda>i. items ! i \<noteq> NaN) [0..<length items])))))
     @ filter (\<lambda>i. items ! i = NaN) [0..<length items]"
  by (simp only: nargsort_def Let_def if_False
      rev_map[of "\<lambda>i. items ! i" "filter (\<lambda>i. items ! i \<noteq> NaN) [0..<length items]"])

text \<open>The pieces of the descending \<open>nargsort\<close>, named once for the proofs below.\<close>

lemma nargsort_pieces:
  assumes "comparable (filter (\<lambda>c. c \<noteq> NaN) items)"
  obtains nn na xs where
    "nn = filter (\<lambda>i. items ! i \<noteq> NaN) [0..<length items]"
    "na = filter (\<lambda>i. items ! i = NaN) [0..<length items]"
    "xs = map (\<lambda>i. items ! i) (rev nn)"
    "comparable xs"
    "length xs = length (rev nn)"
    "nargsort kind items False = rev (map (\<lambda>j. rev nn ! j) (kind xs)) @ na"
proof -
  define nn where "nn = filter (\<lambda>i. items ! i \<noteq> NaN) [0..<length items]"
  define na where "na = filter (\<lambda>i. items ! i = NaN) [0..<length items]"
  define xs where "xs = map (\<lambda>i. items ! i) (rev nn)"
  have "xs = rev (filter (\<lambda>c. c \<noteq> NaN) items)"
    unfolding xs_def nn_def by (simp add: rev_map[symmetric] present_keys)
  with assms have c: "comparable xs" by (simp add: comparable_rev)
  have l: "length xs = length (rev nn)" by (simp add: xs_def)
  have "nargsort kind items False = rev (map (\<lambda>j. rev nn ! j) (kind xs)) @ na"
    unfolding nn_def na_def xs_def by (rule nargsort_desc)
  with that[OF nn_def na_def xs_def c l] show thesis .
qed

lemma mset_nargsort:
  assumes "argsort_spec kind" and "comparable (filter (\<lambda>c. c \<noteq> NaN) items)"
  shows "mset (nargsort kind items False) = mset [0..<length items]"
proof -
  from nargsort_pieces[OF assms(2), of kind] obtain nn na xs where p:
    "nn = filter (\<lambda>i. items ! i \<noteq> NaN) [0..<length items]"
    "na = filter (\<lambda>i. items ! i = NaN) [0..<length items]"
    "comparable xs" "length xs = length (rev nn)"
    "nargsort kind items False = rev (map (\<lambda>j. rev nn ! j) (kind xs)) @ na"
    by metis
  have part: "mset nn + mset na = mset [0..<length items]"
    unfolding p(1,2)
    using mset_partition_filter[of "\<lambda>i. items ! i \<noteq> NaN" "[0..<length items]"] by simp
  have "mset (kind xs) = mset [0..<length (rev nn)]"
    using argsort_spec_mset[OF assms(1) p(3)] p(4) by simp
  then have "mset (map (\<lambda>j. rev nn ! j) (kind xs)) = mset (rev nn)"
    by (rule mset_map_nth)
  then have "mset (nargsort kind items False) = mset nn + mset na"
    by (simp add: p(5))
  with part show ?thesis by simp
qed

lemma nargsort_bound:
  assumes "argsort_spec kind" and "comparable (filter (\<lambda>c. c \<noteq> NaN) items)"
    and "i \<in> set (nargsort kind items False)"
  shows "i < length items"
  using mset_eq_setD[OF mset_nargsort[OF assms(1,2)]] assms(3) by simp

lemma cell_le_descending: "cell_le a b \<Longrightarrow> descending b a"
  by (cases a; cases b) simp_all

lemma descending_nargsort:
  assumes spec: "argsort_spec kind" and cmp: "comparable (filter (\<lambda>c. c \<noteq> NaN) items)"
  shows "sorted_wrt descending (map (\<lambda>i. items ! i) (nargsort kind items False))"
proof -
  from nargsort_pieces[OF cmp, of kind] obtain nn na xs where p:
    "na = filter (\<lambda>i. items ! i = NaN) [0..<length items]"
    "xs = map (\<lambda>i. items ! i) (rev nn)"
    "comparable xs" "length xs = length (rev nn)"
    "nargsort kind items False = rev (map (\<lambda>j. rev nn ! j) (kind xs)) @ na"
    by metis
  have "j < length (rev nn)" if "j \<in> set (kind xs)" for j
    using argsort_spec_set[OF spec p(3)] that p(4) by simp
  then have "map (\<lambda>j. items ! (rev nn ! j)) (kind xs) = map (\<lambda>j. xs ! j) (kind xs)"
    by (simp add: p(2))
  then have front: "map (\<lambda>i. items ! i) (rev (map (\<lambda>j. rev nn ! j) (kind xs)))
      = rev (map (\<lambda>j. xs ! j) (kind xs))"
    by (simp add: rev_map comp_def)
  have nans: "\<forall>c \<in> set (map (\<lambda>i. items ! i) na). c = NaN" by (simp add: p(1))
  have "sorted_wrt (\<lambda>a b. descending b a) (map (\<lambda>j. xs ! j) (kind xs))"
    by (rule sorted_wrt_mono_rel[OF _ argsort_spec_sorted[OF spec p(3)]])
      (rule cell_le_descending)
  then have s1: "sorted_wrt descending (rev (map (\<lambda>j. xs ! j) (kind xs)))"
    by (simp add: sorted_wrt_rev)
  have s2: "sorted_wrt descending (map (\<lambda>i. items ! i) na)"
    using nans by (induction na) auto
  have "map (\<lambda>i. items ! i) (nargsort kind items False)
      = rev (map (\<lambda>j. xs ! j) (kind xs)) @ map (\<lambda>i. items ! i) na"
    by (simp only: p(5) map_append front)
  moreover have "sorted_wrt descending (rev (map (\<lambda>j. xs ! j) (kind xs)) @ map (\<lambda>i. items ! i) na)"
    using s1 s2 nans by (simp add: sorted_wrt_append)
  ultimately show ?thesis by simp
qed

lemma filter_nargsort:
  assumes spec: "argsort_spec kind" and st: "stable_kind kind"
    and cmp: "comparable (filter (\<lambda>c. c \<noteq> NaN) items)"
  shows "filter (\<lambda>i. items ! i = v) (nargsort kind items False)
       = filter (\<lambda>i. items ! i = v) [0..<length items]"
proof -
  from nargsort_pieces[OF cmp, of kind] obtain nn na xs where p:
    "nn = filter (\<lambda>i. items ! i \<noteq> NaN) [0..<length items]"
    "na = filter (\<lambda>i. items ! i = NaN) [0..<length items]"
    "xs = map (\<lambda>i. items ! i) (rev nn)"
    "comparable xs" "length xs = length (rev nn)"
    "nargsort kind items False = rev (map (\<lambda>j. rev nn ! j) (kind xs)) @ na"
    by metis
  have key: "items ! (rev nn ! j) = xs ! j" if "j < length xs" for j
    using that by (simp add: p(3))
  have inb: "j < length xs" if "j \<in> set (kind xs)" for j
    using argsort_spec_set[OF spec p(4)] that by simp
  have "filter (\<lambda>i. items ! i = v) (map (\<lambda>j. rev nn ! j) (kind xs))
      = map (\<lambda>j. rev nn ! j) (filter (\<lambda>j. items ! (rev nn ! j) = v) (kind xs))"
    by (simp add: filter_map comp_def)
  also have "filter (\<lambda>j. items ! (rev nn ! j) = v) (kind xs) = filter (\<lambda>j. xs ! j = v) (kind xs)"
    by (rule filter_cong) (simp_all add: key inb)
  also have "\<dots> = filter (\<lambda>j. xs ! j = v) [0..<length xs]"
    using st p(4) by (simp add: stable_kind_def)
  also have "\<dots> = filter (\<lambda>j. items ! (rev nn ! j) = v) [0..<length xs]"
    by (rule filter_cong) (simp_all add: key)
  also have "map (\<lambda>j. rev nn ! j) \<dots> = filter (\<lambda>i. items ! i = v) (map (\<lambda>j. rev nn ! j) [0..<length (rev nn)])"
    by (simp add: filter_map comp_def p(5))
  also have "\<dots> = filter (\<lambda>i. items ! i = v) (rev nn)" by (simp only: map_nth)
  finally have front: "filter (\<lambda>i. items ! i = v) (rev (map (\<lambda>j. rev nn ! j) (kind xs)))
      = filter (\<lambda>i. items ! i = v) nn"
    by (simp add: rev_filter[symmetric])
  have "filter (\<lambda>i. items ! i = v) nn @ filter (\<lambda>i. items ! i = v) na
      = filter (\<lambda>i. items ! i = v) [0..<length items]"
  proof (cases "v = NaN")
    case True
    then have "filter (\<lambda>i. items ! i = v) nn = []"
      "filter (\<lambda>i. items ! i = v) na = filter (\<lambda>i. items ! i = v) [0..<length items]"
      by (auto simp: p(1,2) intro: filter_cong)
    then show ?thesis by simp
  next
    case False
    then have "filter (\<lambda>i. items ! i = v) na = []"
      "filter (\<lambda>i. items ! i = v) nn = filter (\<lambda>i. items ! i = v) [0..<length items]"
      by (auto simp: p(1,2) intro: filter_cong)
    then show ?thesis by simp
  qed
  with front show ?thesis by (simp add: p(6))
qed


subsection \<open>The ranking\<close>

lemma numeric_comparable:
  assumes "\<forall>c \<in> set items. \<not> is_Str c"
  shows "comparable (filter (\<lambda>c. c \<noteq> NaN) items)"
proof -
  have "is_Num c" if "c \<in> set items" "c \<noteq> NaN" for c
    using assms that by (cases c) auto
  then show ?thesis by (simp add: comparable_def)
qed

lemma matching_comparable:
  assumes "numeric_column df m"
  shows "comparable (filter (\<lambda>c. c \<noteq> NaN) (map (\<lambda>r. r m) (matching_rows df c)))"
  by (rule numeric_comparable) (use assms in \<open>auto simp: numeric_column_def matching_rows_def\<close>)

lemma filtered_sorted_eq:
  assumes "''Continent'' \<in> set (columns df)" and "m \<in> set (columns df)"
    and "comparable (filter (\<lambda>c. c \<noteq> NaN) (map (\<lambda>r. r m) (matching_rows df c)))"
  shows "filtered_sorted kind df c m n = Inr (head (df\<lparr>rows := ranked_rows kind df c m\<rparr>) n)"
proof -
  let ?f = "df\<lparr>rows := matching_rows df c\<rparr>"
  have "sort_values kind ?f m False = Inr (?f\<lparr>rows := ranked_rows kind df c m\<rparr>)"
    using assms(2,3) by (simp add: sort_values_def getitem_def ranked_rows_def)
  then show ?thesis
    by (simp add: filtered_sorted_def filtered_df_rows[OF assms(1)])
qed

lemma mset_ranked_rows:
  assumes "argsort_spec kind"
    and "comparable (filter (\<lambda>c. c \<noteq> NaN) (map (\<lambda>r. r m) (matching_rows df c)))"
  shows "mset (ranked_rows kind df c m) = mset (matching_rows df c)"
  unfolding ranked_rows_def
  by (rule mset_map_nth) (simp add: mset_nargsort[OF assms])

lemma keys_ranked_rows:
  assumes "argsort_spec kind"
    and "comparable (filter (\<lambda>c. c \<noteq> NaN) (map (\<lambda>r. r m) (matching_rows df c)))"
  shows "map (\<lambda>r. r m) (ranked_rows kind df c m) =
     map (\<lambda>i. map (\<lambda>r. r m) (matching_rows df c) ! i)
       (nargsort kind (map (\<lambda>r. r m) (matching_rows df c)) False)"
  unfolding ranked_rows_def using nargsort_bound[OF assms]
  by simp

lemma descending_ranked_rows:
  assumes "argsort_spec kind"
    and "comparable (filter (\<lambda>c. c \<noteq> NaN) (map (\<lambda>r. r m) (matching_rows df c)))"
  shows "sorted_wrt descending (map (\<lambda>r. r m) (ranked_rows kind df c m))"
  using descending_nargsort[OF assms] by (simp only: keys_ranked_rows[OF assms])

lemma sorted_wrt_take: "sorted_wrt P xs \<Longrightarrow> sorted_wrt P (take k xs)"
  by (metis append_take_drop_id sorted_wrt_append)

lemma filter_ranked_rows:
  assumes spec: "argsort_spec kind" and st: "stable_kind kind"
    and cmp: "comparable (filter (\<lambda>c. c \<noteq> NaN) (map (\<lambda>r. r m) (matching_rows df c)))"
  shows "filter (\<lambda>r. r m = v) (ranked_rows kind df c m) = filter (\<lambda>r. r m = v) (matching_rows df c)"
proof -
  define F where "F = matching_rows df c"
  define items where "items = map (\<lambda>r. r m) F"
  define ix where "ix = nargsort kind items False"
  have cmp': "comparable (filter (\<lambda>c. c \<noteq> NaN) items)"
    using cmp by (simp add: items_def F_def)
  have bound: "i < length F" if "i \<in> set ix" for i
    using nargsort_bound[OF spec cmp', of i] that by (simp add: ix_def items_def)
  have "filter (\<lambda>r. r m = v) (map (\<lambda>i. F ! i) ix) = map (\<lambda>i. F ! i) (filter (\<lambda>i. (F ! i) m = v) ix)"
    by (simp add: filter_map comp_def)
  also have "filter (\<lambda>i. (F ! i) m = v) ix = filter (\<lambda>i. items ! i = v) ix"
    by (rule filter_cong) (simp_all add: items_def bound)
  also have "\<dots> = filter (\<lambda>i. items ! i = v) [0..<length items]"
    unfolding ix_def by (rule filter_nargsort[OF spec st cmp'])
  also have "\<dots> = filter (\<lambda>i. (F ! i) m = v) [0..<length F]"
    by (rule filter_cong) (simp_all add: items_def)
  also have "map (\<lambda>i. F ! i) \<dots> = filter (\<lambda>r. r m = v) (map (\<lambda>i. F ! i) [0..<length F])"
    by (simp add: filter_map comp_def)
  also have "\<dots> = filter (\<lambda>r. r m = v) F" by (simp only: map_nth)
  finally show ?thesis by (simp add: ranked_rows_def F_def items_def ix_def)
qed

lemma prefix_filter_take: "prefix (filter P (take k xs)) (filter P xs)"
proof -
  have "filter P xs = filter P (take k xs) @ filter P (drop k xs)"
    by (metis append_take_drop_id filter_append)
  then show ?thesis by (rule prefixI)
qed

subsection \<open>The stable argsort\<close>

lemma order_key_le:
  assumes "comparable xs" and "a \<in> set xs" and "b \<in> set xs" and "order_key a \<le> order_key b"
  shows "cell_le a b"
proof -
  from assms(1) consider "is_Num a" "is_Num b" | "is_Str a" "is_Str b"
    using assms(2,3) by (auto simp: comparable_def)
  then show ?thesis
  proof cases
    case 1
    then obtain x y where "a = Num x" "b = Num y" by (cases a; cases b) auto
    with assms(4) show ?thesis by (auto simp: less_eq_prod_def)
  next
    case 2
    then obtain x y where "a = Str x" "b = Str y" by (cases a; cases b) auto
    with assms(4) show ?thesis by (auto simp: less_eq_prod_def)
  qed
qed

lemma sorted_by_order_key:
  assumes "comparable xs" and "set l \<subseteq> {0..<length xs}"
    and "sorted (map (\<lambda>i. order_key (xs ! i)) l)"
  shows "sorted_wrt cell_le (map (\<lambda>i. xs ! i) l)"
proof -
  from assms(3) have "sorted_wrt (\<lambda>i j. order_key (xs ! i) \<le> order_key (xs ! j)) l"
    by (simp add: sorted_wrt_map)
  then have "sorted_wrt (\<lambda>i j. cell_le (xs ! i) (xs ! j)) l"
  proof (rule sorted_wrt_mono_rel[rotated])
    fix i j assume "i \<in> set l" "j \<in> set l" "order_key (xs ! i) \<le> order_key (xs ! j)"
    with assms(2) show "cell_le (xs ! i) (xs ! j)"
      by (intro order_key_le[OF assms(1)]) auto
  qed
  then show ?thesis by (simp add: sorted_wrt_map)
qed

lemma filter_sort_key_ties:
  "filter (\<lambda>i. xs ! i = v) (sort_key (\<lambda>i. order_key (xs ! i)) l) = filter (\<lambda>i. xs ! i = v) l"
proof -
  let ?f = "\<lambda>i. order_key (xs ! i)"
  have narrow: "filter (\<lambda>i. xs ! i = v) k = filter (\<lambda>i. xs ! i = v) (filter (\<lambda>i. ?f i = order_key v) k)"
    for k by (auto intro: filter_cong)
  have "filter (\<lambda>i. xs ! i = v) (sort_key ?f l)
      = filter (\<lambda>i. xs ! i = v) (filter (\<lambda>i. ?f i = order_key v) (sort_key ?f l))"
    by (rule narrow)
  also have "\<dots> = filter (\<lambda>i. xs ! i = v) (filter (\<lambda>i. ?f i = order_key v) l)"
    by (simp only: sort_key_stable)
  also have "\<dots> = filter (\<lambda>i. xs ! i = v) l" by (rule narrow[symmetric])
  finally show ?thesis .
qed

lemma argsort_spec_stable: "argsort_spec stable_argsort"
  unfolding argsort_spec_def stable_argsort_def
  by (auto intro!: sorted_by_order_key sorted_sort_key[of "\<lambda>i. order_key (_ ! i)", unfolded comp_def])

lemma stable_kind_stable: "stable_kind stable_argsort"
  by (simp add: stable_kind_def stable_argsort_def filter_sort_key_ties)

subsection \<open>The sorting network of the default kind\<close>

lemma short_numeric_cases: "length xs \<le> 4 \<Longrightarrow> (\<forall>c \<in> set xs. is_Num c) \<Longrightarrow>
  xs = [] \<or> (\<exists>a. xs = [Num a]) \<or> (\<exists>a b. xs = [Num a, Num b]) \<or> (\<exists>a b c. xs = [Num a, Num b, Num c])
  \<or> (\<exists>a b c d. xs = [Num a, Num b, Num c, Num d])"
proof -
  assume l: "length xs \<le> 4" and n: "\<forall>c \<in> set xs. is_Num c"
  have num: "is_Num c \<Longrightarrow> \<exists>a. c = Num a" for c by (cases c) auto
  show ?thesis
  proof (cases xs)
    case Nil then show ?thesis by simp
  next
    case (Cons x1 r1)
    show ?thesis
    proof (cases r1)
      case Nil with Cons n num show ?thesis by auto
    next
      case (Cons x2 r2)
      note c2 = this
      show ?thesis
      proof (cases r2)
        case Nil with c2 \<open>xs = x1 # r1\<close> n num show ?thesis by auto
      next
        case (Cons x3 r3)
        note c3 = this
        show ?thesis
        proof (cases r3)
          case Nil with c2 c3 \<open>xs = x1 # r1\<close> n num show ?thesis by auto
        next
          case (Cons x4 r4)
          with c2 c3 \<open>xs = x1 # r1\<close> l have "r4 = []" by simp
          with Cons c2 c3 \<open>xs = x1 # r1\<close> n num show ?thesis by auto
        qed
      qed
    qed
  qed
qed


lemma upt4: "[0..<4] = [0, 1, 2, 3]" "[0..<3] = [0, 1, 2]" "[0..<2] = [0, 1]" "[0..<1] = [0]"
  by (simp_all add: upt_rec)

lemma network_sorts_4:
  assumes "xs = [Num a, Num b, Num c, Num d]"
  shows "mset (np_quicksort rest xs) = mset [0..<length xs]
   \<and> sorted_wrt cell_le (map (\<lambda>i. xs ! i) (np_quicksort rest xs))"
  unfolding assms
  by (auto simp: np_quicksort_def network4_def cmpx_def Let_def upt4 numeral_2_eq_2 numeral_3_eq_3 add_mset_commute)

lemma network_sorts_3:
  assumes "xs = [Num a, Num b, Num c]"
  shows "mset (np_quicksort rest xs) = mset [0..<length xs]
   \<and> sorted_wrt cell_le (map (\<lambda>i. xs ! i) (np_quicksort rest xs))"
  unfolding assms
  by (auto simp: np_quicksort_def network4_def cmpx_def Let_def upt4 numeral_2_eq_2 numeral_3_eq_3 add_mset_commute)

lemma network_sorts_2:
  assumes "xs = [Num a, Num b]"
  shows "mset (np_quicksort rest xs) = mset [0..<length xs]
   \<and> sorted_wrt cell_le (map (\<lambda>i. xs ! i) (np_quicksort rest xs))"
  unfolding assms
  by (auto simp: np_quicksort_def network4_def cmpx_def Let_def upt4 numeral_2_eq_2 numeral_3_eq_3 add_mset_commute)

lemma network_sorts_1:
  assumes "xs = [Num a]"
  shows "mset (np_quicksort rest xs) = mset [0..<length xs]
   \<and> sorted_wrt cell_le (map (\<lambda>i. xs ! i) (np_quicksort rest xs))"
  unfolding assms
  by (auto simp: np_quicksort_def network4_def cmpx_def Let_def upt4 numeral_2_eq_2 numeral_3_eq_3 add_mset_commute)

lemma argsort_spec_np_quicksort:
  assumes "argsort_spec rest"
  shows "argsort_spec (np_quicksort rest)"
  unfolding argsort_spec_def
proof (intro allI impI)
  fix xs assume cmp: "comparable xs"
  show "mset (np_quicksort rest xs) = mset [0..<length xs]
      \<and> sorted_wrt cell_le (map (\<lambda>i. xs ! i) (np_quicksort rest xs))"
  proof (cases "length xs \<le> 4 \<and> (\<forall>c \<in> set xs. is_Num c)")
    case True
    then have l: "length xs \<le> 4" and n: "\<forall>c \<in> set xs. is_Num c" by simp_all
    from short_numeric_cases[OF l n] show ?thesis
    proof (elim disjE exE)
      assume "xs = []"
      then show ?thesis by (simp add: np_quicksort_def)
    next
      fix a assume "xs = [Num a]"
      then show ?thesis by (rule network_sorts_1)
    next
      fix a b assume "xs = [Num a, Num b]"
      then show ?thesis by (rule network_sorts_2)
    next
      fix a b c assume "xs = [Num a, Num b, Num c]"
      then show ?thesis by (rule network_sorts_3)
    next
      fix a b c d assume "xs = [Num a, Num b, Num c, Num d]"
      then show ?thesis by (rule network_sorts_4)
    qed
  next
    case False
    then have "np_quicksort rest xs = rest xs" unfolding np_quicksort_def by (rule if_not_P)
    with assms cmp show ?thesis by (simp add: argsort_spec_def)
  qed
qed

subsection \<open>Claims about the ranking\<close>

lemma demo_columns_present:
  "''Continent'' \<in> set (columns demo_df) \<and> ''Sales ($billion)'' \<in> set (columns demo_df)"
  by (simp add: demo_df_def demo_columns_def)

lemma demo_numeric: "numeric_column demo_df ''Sales ($billion)''"
  by (simp add: numeric_column_def demo_df_def company_def mk_row_def)

lemma ties_columns_present:
  "''Continent'' \<in> set (columns ties_df) \<and> ''Sales ($billion)'' \<in> set (columns ties_df)"
  by (simp add: ties_df_def demo_columns_def)

lemma ties_numeric: "numeric_column ties_df ''Sales ($billion)''"
  by (simp add: numeric_column_def ties_df_def company_def mk_row_def)

text \<open>
  Claim C1. Let the frame have the Continent column and the metric column, the metric
  column numeric, and let \<open>top_n\<close> be non-negative. Whatever argsort routine of numpy
  does the sorting, the ranking returns a frame \<open>R\<close> with at most \<open>top_n\<close> rows, every
  row of \<open>R\<close> has the requested continent, and the metric values of \<open>R\<close> are in
  descending order (rows with a missing metric value come last).
\<close>

theorem rank_bounded_filtered_descending:
  assumes "argsort_spec kind" and "''Continent'' \<in> set (columns D)" and "m \<in> set (columns D)"
    and "numeric_column D m" and "0 \<le> n"
  shows "\<exists>R. filtered_sorted kind D C m n = Inr R
           \<and> int (length (rows R)) \<le> n
           \<and> (\<forall>r \<in> set (rows R). r ''Continent'' = Str C)
           \<and> sorted_wrt descending (map (\<lambda>r. r m) (rows R))"
proof -
  let ?R = "head (D\<lparr>rows := ranked_rows kind D C m\<rparr>) n"
  note cmp = matching_comparable[OF assms(4), of C]
  have rows: "rows ?R = take (nat n) (ranked_rows kind D C m)"
    using assms(5) by (simp add: head_def)
  have "set (ranked_rows kind D C m) = set (matching_rows D C)"
    using mset_ranked_rows[OF assms(1) cmp] by (rule mset_eq_setD)
  then have cont: "\<forall>r \<in> set (rows ?R). r ''Continent'' = Str C"
    unfolding rows by (auto simp: matching_rows_def dest: in_set_takeD)
  have len: "int (length (rows ?R)) \<le> n" unfolding rows using assms(5) by simp
  have "sorted_wrt descending (take (nat n) (map (\<lambda>r. r m) (ranked_rows kind D C m)))"
    by (rule sorted_wrt_take) (rule descending_ranked_rows[OF assms(1) cmp])
  then have srt: "sorted_wrt descending (map (\<lambda>r. r m) (rows ?R))"
    unfolding rows by (simp add: take_map)
  from filtered_sorted_eq[OF assms(2,3) cmp] len cont srt show ?thesis by blast
qed

theorem rank_bounded_filtered_descending_witness:
  "argsort_spec stable_argsort
   \<and> ''Continent'' \<in> set (columns demo_df) \<and> ''Sales ($billion)'' \<in> set (columns demo_df)
   \<and> numeric_column demo_df ''Sales ($billion)'' \<and> (0::int) \<le> 5
   \<and> (\<exists>R. filtered_sorted stable_argsort demo_df ''Asia'' ''Sales ($billion)'' 5 = Inr R
           \<and> int (length (rows R)) \<le> 5
           \<and> (\<forall>r \<in> set (rows R). r ''Continent'' = Str ''Asia'')
           \<and> sorted_wrt descending (map (\<lambda>r. r ''Sales ($billion)'') (rows R)))"
  using rank_bounded_filtered_descending[of stable_argsort demo_df "''Sales ($billion)''" 5 "''Asia''"]
    argsort_spec_stable demo_columns_present demo_numeric
  by simp

text \<open>The example of the specification: of the rows (A, Asia, 10), (B, Asia, 30) and
  (C, Europe, 20), the ranking for Asia lists B, then A.\<close>

lemma demo_ranking:
  "filtered_sorted stable_argsort demo_df ''Asia'' ''Sales ($billion)'' 5
     = Inr (demo_df\<lparr>rows := [company ''B'' ''Asia'' 30, company ''A'' ''Asia'' 10]\<rparr>)"
  by (simp add: filtered_sorted_def filtered_df_def getitem_def getitem_mask_def eq_mask_def
      sort_values_def nargsort_def head_def stable_argsort_def demo_df_def demo_columns_def
      company_def mk_row_def comparable_def Let_def less_eq_prod_def)

lemma company_Continent: "company n c s ''Continent'' = Str c"
  by (simp add: company_def mk_row_def)

lemma company_Sales: "company n c s ''Sales ($billion)'' = Num s"
  by (simp add: company_def mk_row_def)

lemma company_Company: "company n c s ''Company'' = Str n"
  by (simp add: company_def mk_row_def)

lemma ties_matching:
  "matching_rows ties_df ''Asia'' = [company ''A'' ''Asia'' 10, company ''B'' ''Asia'' 10]"
  by (simp add: matching_rows_def ties_df_def company_Continent)

text \<open>
  With a stable kind the rows with equal metric values would be ranked in dataset order:
  for every metric value, the rows of the result with that value are the first matching
  rows of the dataset with that value, in the order of the dataset. The program does not
  ask for a stable kind.
\<close>

lemma stable_kind_dataset_order:
  assumes "argsort_spec kind" and "stable_kind kind"
    and "''Continent'' \<in> set (columns D)" and "m \<in> set (columns D)"
    and "numeric_column D m"
  shows "\<exists>R. filtered_sorted kind D C m n = Inr R \<and> ties_in_dataset_order D C m R"
proof -
  let ?R = "head (D\<lparr>rows := ranked_rows kind D C m\<rparr>) n"
  note cmp = matching_comparable[OF assms(5), of C]
  obtain k where rows: "rows ?R = take k (ranked_rows kind D C m)"
    by (cases "0 \<le> n") (simp_all add: head_def)
  have "prefix (filter (\<lambda>r. r m = v) (rows ?R)) (filter (\<lambda>r. r m = v) (matching_rows D C))" for v
    unfolding rows using prefix_filter_take[of "\<lambda>r. r m = v" k "ranked_rows kind D C m"]
    by (simp only: filter_ranked_rows[OF assms(1,2) cmp])
  then have "ties_in_dataset_order D C m ?R" by (simp add: ties_in_dataset_order_def)
  with filtered_sorted_eq[OF assms(3,4) cmp] show ?thesis by blast
qed

text \<open>
  The default kind on the datasets: the two rows of \<open>ties_df\<close>, both with sales 10, are
  ranked A, B; the four rows of \<open>ties4_df\<close> are ranked D, C, B, A. The routine meets
  \<open>argsort_spec\<close> and is not a stable kind.
\<close>

lemma ties4_matching:
  "matching_rows ties4_df ''Asia'' = [company ''A'' ''Asia'' 10, company ''B'' ''Asia'' 10,
                        company ''C'' ''Asia'' 20, company ''D'' ''Asia'' 20]"
  by (simp add: matching_rows_def ties4_df_def company_Continent)

lemma ties4_columns_present:
  "''Continent'' \<in> set (columns ties4_df) \<and> ''Sales ($billion)'' \<in> set (columns ties4_df)"
  by (simp add: ties4_df_def demo_columns_def)

lemma ties4_numeric: "numeric_column ties4_df ''Sales ($billion)''"
  by (simp add: numeric_column_def ties4_df_def company_def mk_row_def)

lemma np_quicksort_ties4: "np_quicksort rest [Num 20, Num 20, Num 10, Num 10] = [3, 2, 1, 0]"
  by (simp add: np_quicksort_def network4_def cmpx_def Let_def upt4 numeral_2_eq_2 numeral_3_eq_3)

lemma np_quicksort_ties: "np_quicksort rest [Num 10, Num 10] = [0, 1]"
  by (simp add: np_quicksort_def network4_def cmpx_def Let_def upt4 numeral_2_eq_2 numeral_3_eq_3)

lemma np_quicksort_not_stable: "\<not> stable_kind (np_quicksort rest)"
proof
  assume "stable_kind (np_quicksort rest)"
  moreover have "comparable [Num 20, Num 20, Num 10, Num 10]" by (simp add: comparable_def)
  ultimately have "filter (\<lambda>i. [Num 20, Num 20, Num 10, Num 10] ! i = Num 20)
        (np_quicksort rest [Num 20, Num 20, Num 10, Num 10])
      = filter (\<lambda>i. [Num 20, Num 20, Num 10, Num 10] ! i = Num 20)
          [0..<length [Num 20, Num 20, Num 10, Num 10]]"
    unfolding stable_kind_def by blast
  then show False by (simp add: np_quicksort_ties4 upt4)
qed

lemma nargsort_ties4:
  "nargsort (np_quicksort rest) [Num 10, Num 10, Num 20, Num 20] False = [3, 2, 1, 0]"
  by (simp add: nargsort_def Let_def upt4 np_quicksort_ties4)

lemma nargsort_ties:
  "nargsort (np_quicksort rest) [Num 10, Num 10] False = [0, 1]"
  by (simp add: nargsort_def Let_def upt4 np_quicksort_ties)

lemma ties4_ranked:
  "ranked_rows (np_quicksort rest) ties4_df ''Asia'' ''Sales ($billion)''
     = [company ''D'' ''Asia'' 20, company ''C'' ''Asia'' 20,
        company ''B'' ''Asia'' 10, company ''A'' ''Asia'' 10]"
  by (simp add: ranked_rows_def ties4_matching company_Sales nargsort_ties4)

lemma ties4_ranking:
  "filtered_sorted (np_quicksort rest) ties4_df ''Asia'' ''Sales ($billion)'' 5
     = Inr (ties4_df\<lparr>rows := [company ''D'' ''Asia'' 20, company ''C'' ''Asia'' 20,
                               company ''B'' ''Asia'' 10, company ''A'' ''Asia'' 10]\<rparr>)"
  using filtered_sorted_eq[OF ties4_columns_present[THEN conjunct1]
      ties4_columns_present[THEN conjunct2] matching_comparable[OF ties4_numeric],
      of "np_quicksort rest" "''Asia''" 5]
  by (simp add: ties4_ranked head_def)

lemma ties_ranking_quicksort:
  "filtered_sorted (np_quicksort rest) ties_df ''Asia'' ''Sales ($billion)'' 5
     = Inr (ties_df\<lparr>rows := [company ''A'' ''Asia'' 10, company ''B'' ''Asia'' 10]\<rparr>)"
  using filtered_sorted_eq[OF ties_columns_present[THEN conjunct1]
      ties_columns_present[THEN conjunct2] matching_comparable[OF ties_numeric],
      of "np_quicksort rest" "''Asia''" 5]
  by (simp add: ranked_rows_def ties_matching company_Sales nargsort_ties head_def)

lemma mset_filter_take:
  "mset (filter P (take k xs)) \<subseteq># mset (filter P xs)"
proof -
  have "filter P xs = filter P (take k xs) @ filter P (drop k xs)"
    by (metis append_take_drop_id filter_append)
  then show ?thesis by simp
qed

text \<open>
  Claim C2, as stated: rows with equal metric values are ranked in dataset order. The
  program sorts with the default kind. On \<open>ties4_df\<close>, whose rows A, B (sales 10) and
  C, D (sales 20) are all of Asia, the ranking by sales is D, C, B, A: D comes before C
  and B before A, against their order in the dataset.
\<close>

theorem rank_ties_network_counterexample:
  "filtered_sorted (np_quicksort stable_argsort) ties4_df ''Asia'' ''Sales ($billion)'' 5
       = Inr (ties4_df\<lparr>rows := [company ''D'' ''Asia'' 20, company ''C'' ''Asia'' 20,
                                 company ''B'' ''Asia'' 10, company ''A'' ''Asia'' 10]\<rparr>)
   \<and> \<not> ties_in_dataset_order ties4_df ''Asia'' ''Sales ($billion)''
         (ties4_df\<lparr>rows := [company ''D'' ''Asia'' 20, company ''C'' ''Asia'' 20,
                                 company ''B'' ''Asia'' 10, company ''A'' ''Asia'' 10]\<rparr>)"
proof (intro conjI)
  show "filtered_sorted (np_quicksort stable_argsort) ties4_df ''Asia'' ''Sales ($billion)'' 5
       = Inr (ties4_df\<lparr>rows := [company ''D'' ''Asia'' 20, company ''C'' ''Asia'' 20,
                                 company ''B'' ''Asia'' 10, company ''A'' ''Asia'' 10]\<rparr>)"
    by (rule ties4_ranking)
  show "\<not> ties_in_dataset_order ties4_df ''Asia'' ''Sales ($billion)''
         (ties4_df\<lparr>rows := [company ''D'' ''Asia'' 20, company ''C'' ''Asia'' 20,
                                 company ''B'' ''Asia'' 10, company ''A'' ''Asia'' 10]\<rparr>)"
  proof
    assume "ties_in_dataset_order ties4_df ''Asia'' ''Sales ($billion)''
         (ties4_df\<lparr>rows := [company ''D'' ''Asia'' 20, company ''C'' ''Asia'' 20,
                                 company ''B'' ''Asia'' 10, company ''A'' ''Asia'' 10]\<rparr>)"
    then have "\<forall>v. prefix
        (filter (\<lambda>r. r ''Sales ($billion)'' = v)
           [company ''D'' ''Asia'' 20, company ''C'' ''Asia'' 20,
            company ''B'' ''Asia'' 10, company ''A'' ''Asia'' 10])
        (filter (\<lambda>r. r ''Sales ($billion)'' = v)
           [company ''A'' ''Asia'' 10, company ''B'' ''Asia'' 10,
            company ''C'' ''Asia'' 20, company ''D'' ''Asia'' 20])"
      unfolding ties_in_dataset_order_def ties4_matching by simp
    then have "prefix
        (filter (\<lambda>r. r ''Sales ($billion)'' = Num 20)
           [company ''D'' ''Asia'' 20, company ''C'' ''Asia'' 20,
            company ''B'' ''Asia'' 10, company ''A'' ''Asia'' 10])
        (filter (\<lambda>r. r ''Sales ($billion)'' = Num 20)
           [company ''A'' ''Asia'' 10, company ''B'' ''Asia'' 10,
            company ''C'' ''Asia'' 20, company ''D'' ''Asia'' 20])"
      by (rule spec)
    moreover have "Num 10 \<noteq> Num (20::real)" by simp
    ultimately have "prefix [company ''D'' ''Asia'' 20, company ''C'' ''Asia'' 20]
                      [company ''C'' ''Asia'' 20, company ''D'' ''Asia'' 20]"
      by (simp only: filter.simps company_Sales simp_thms if_True if_False)
    then have "company ''D'' ''Asia'' 20 = company ''C'' ''Asia'' 20"
      by (rule Cons_prefix_Cons[THEN iffD1, THEN conjunct1])
    then have "company ''D'' ''Asia'' 20 ''Company'' = company ''C'' ''Asia'' 20 ''Company''"
      by (rule arg_cong[where f="\<lambda>r. r ''Company''"])
    then show False by (simp add: company_Company)
  qed
qed

text \<open>
  Claim C2, amended: the ranking does not fix the order of rows with equal metric values.
  Whatever argsort routine of numpy does the sorting, the rows of the result with a given
  metric value are matching rows of the dataset with that value, none more often than in
  the dataset; when \<open>top_n\<close> is at least the number of matching rows, they are all
  the matching rows with that value.
\<close>

theorem rank_ties_some_order:
  assumes "argsort_spec kind"
    and "''Continent'' \<in> set (columns D)" and "m \<in> set (columns D)"
    and "numeric_column D m"
  shows "\<exists>R. filtered_sorted kind D C m n = Inr R
           \<and> (\<forall>v. mset (filter (\<lambda>r. r m = v) (rows R))
                      \<subseteq># mset (filter (\<lambda>r. r m = v) (matching_rows D C)))
           \<and> (int (length (matching_rows D C)) \<le> n \<longrightarrow>
                (\<forall>v. mset (filter (\<lambda>r. r m = v) (rows R))
                        = mset (filter (\<lambda>r. r m = v) (matching_rows D C))))"
proof -
  let ?R = "head (D\<lparr>rows := ranked_rows kind D C m\<rparr>) n"
  note cmp = matching_comparable[OF assms(4), of C]
  note ms = mset_ranked_rows[OF assms(1) cmp]
  have tied: "mset (filter (\<lambda>r. r m = v) (ranked_rows kind D C m))
      = mset (filter (\<lambda>r. r m = v) (matching_rows D C))" for v
    by (simp only: mset_filter ms)
  obtain k where rows: "rows ?R = take k (ranked_rows kind D C m)"
    by (cases "0 \<le> n") (simp_all add: head_def)
  have sub: "mset (filter (\<lambda>r. r m = v) (rows ?R))
      \<subseteq># mset (filter (\<lambda>r. r m = v) (matching_rows D C))" for v
    unfolding rows using mset_filter_take[of "\<lambda>r. r m = v" k "ranked_rows kind D C m"]
    by (simp only: tied)
  have all: "mset (filter (\<lambda>r. r m = v) (rows ?R))
      = mset (filter (\<lambda>r. r m = v) (matching_rows D C))"
    if "int (length (matching_rows D C)) \<le> n" for v
  proof -
    have "length (ranked_rows kind D C m) = length (matching_rows D C)"
      using ms by (rule mset_eq_length)
    with that have "rows ?R = ranked_rows kind D C m" by (simp add: head_def)
    then show ?thesis by (simp only: tied)
  qed
  from filtered_sorted_eq[OF assms(2,3) cmp] sub all show ?thesis by blast
qed

lemma ties4_count: "int (length (matching_rows ties4_df ''Asia'')) \<le> 5"
  by (simp add: ties4_matching)

theorem rank_ties_some_order_witness:
  "argsort_spec (np_quicksort stable_argsort)
   \<and> ''Continent'' \<in> set (columns ties4_df) \<and> ''Sales ($billion)'' \<in> set (columns ties4_df)
   \<and> numeric_column ties4_df ''Sales ($billion)''
   \<and> int (length (matching_rows ties4_df ''Asia'')) \<le> 5
   \<and> (\<exists>R. filtered_sorted (np_quicksort stable_argsort) ties4_df ''Asia'' ''Sales ($billion)'' 5 = Inr R
           \<and> (\<forall>v. mset (filter (\<lambda>r. r ''Sales ($billion)'' = v) (rows R))
                      = mset (filter (\<lambda>r. r ''Sales ($billion)'' = v) (matching_rows ties4_df ''Asia''))))"
  using rank_ties_some_order[of "np_quicksort stable_argsort" ties4_df "''Sales ($billion)''" "''Asia''" 5]
    argsort_spec_np_quicksort[OF argsort_spec_stable] ties4_columns_present ties4_numeric
    ties4_count
  by auto

text \<open>
  Claim C5. Let the frame have the Continent column and the metric column. When no row
  of the frame has the requested continent, the ranking returns a frame without rows,
  whatever the metric column holds and whatever \<open>top_n\<close> is.
\<close>

theorem rank_no_match_empty:
  assumes "argsort_spec kind" and "''Continent'' \<in> set (columns D)" and "m \<in> set (columns D)"
    and "\<forall>r \<in> set (rows D). r ''Continent'' \<noteq> Str C"
  shows "\<exists>R. filtered_sorted kind D C m n = Inr R \<and> rows R = []"
proof -
  have empty: "matching_rows D C = []" using assms(4) by (simp add: matching_rows_def)
  then have cmp: "comparable (filter (\<lambda>c. c \<noteq> NaN) (map (\<lambda>r. r m) (matching_rows D C)))"
    by (simp add: comparable_def)
  have "ranked_rows kind D C m = []"
    using mset_ranked_rows[OF assms(1) cmp] empty by simp
  then have "rows (head (D\<lparr>rows := ranked_rows kind D C m\<rparr>) n) = []"
    by (simp add: head_def)
  with filtered_sorted_eq[OF assms(2,3) cmp] show ?thesis by blast
qed

theorem rank_no_match_empty_witness:
  "argsort_spec stable_argsort
   \<and> ''Continent'' \<in> set (columns demo_df) \<and> ''Sales ($billion)'' \<in> set (columns demo_df)
   \<and> matching_rows demo_df ''Africa'' = []
   \<and> (\<exists>R. filtered_sorted stable_argsort demo_df ''Africa'' ''Sales ($billion)'' 5 = Inr R
           \<and> rows R = [])"
proof -
  have no_match: "\<forall>r \<in> set (rows demo_df). r ''Continent'' \<noteq> Str ''Africa''"
    by (simp add: demo_df_def company_Continent)
  then have "matching_rows demo_df ''Africa'' = []"
    by (simp add: matching_rows_def)
  with rank_no_match_empty[OF argsort_spec_stable _ _ no_match, of "''Sales ($billion)''" 5]
    argsort_spec_stable demo_columns_present
  show ?thesis by blast
qed

text \<open>
  Claim C6. Under the conditions of C1, the ranking has exactly \<open>min top_n k\<close> rows,
  where \<open>k\<close> is the number of rows of the frame with the requested continent; and when
  \<open>top_n\<close> is at least \<open>k\<close>, the ranking holds all of these rows, each as often as the
  frame does.
\<close>

theorem rank_length_min:
  assumes "argsort_spec kind" and "''Continent'' \<in> set (columns D)" and "m \<in> set (columns D)"
    and "numeric_column D m" and "0 \<le> n"
  shows "\<exists>R. filtered_sorted kind D C m n = Inr R
           \<and> int (length (rows R)) = min n (int (length (matching_rows D C)))
           \<and> (int (length (matching_rows D C)) \<le> n \<longrightarrow> mset (rows R) = mset (matching_rows D C))"
proof -
  let ?R = "head (D\<lparr>rows := ranked_rows kind D C m\<rparr>) n"
  note cmp = matching_comparable[OF assms(4), of C]
  have rows: "rows ?R = take (nat n) (ranked_rows kind D C m)"
    using assms(5) by (simp add: head_def)
  have ms: "mset (ranked_rows kind D C m) = mset (matching_rows D C)"
    by (rule mset_ranked_rows[OF assms(1) cmp])
  then have len: "length (ranked_rows kind D C m) = length (matching_rows D C)"
    by (rule mset_eq_length)
  have l: "int (length (rows ?R)) = min n (int (length (matching_rows D C)))"
    unfolding rows using assms(5) len by simp
  have a: "mset (rows ?R) = mset (matching_rows D C)" if "int (length (matching_rows D C)) \<le> n"
    unfolding rows using that len ms by simp
  from filtered_sorted_eq[OF assms(2,3) cmp] l a show ?thesis by blast
qed

lemma boundary_columns_present:
  "''Continent'' \<in> set (columns boundary_df) \<and> ''Sales ($billion)'' \<in> set (columns boundary_df)"
  by (simp add: boundary_df_def demo_columns_def)

lemma boundary_numeric: "numeric_column boundary_df ''Sales ($billion)''"
  by (simp add: numeric_column_def boundary_df_def company_Sales)

lemma boundary_matching:
  "matching_rows boundary_df ''Europe'' = [company ''C'' ''Europe'' 20]"
  "length (matching_rows boundary_df ''Asia'') = 4"
  by (simp_all add: matching_rows_def boundary_df_def company_Continent)

text \<open>Four rows of \<open>boundary_df\<close> are of Asia: with \<open>top_n = 5\<close> the ranking holds
  these four, and with \<open>top_n = 3\<close> it holds three.\<close>

theorem rank_length_min_witness:
  "argsort_spec stable_argsort
   \<and> ''Continent'' \<in> set (columns boundary_df) \<and> ''Sales ($billion)'' \<in> set (columns boundary_df)
   \<and> numeric_column boundary_df ''Sales ($billion)'' \<and> (0::int) \<le> 5
   \<and> int (length (matching_rows boundary_df ''Asia'')) = 4
   \<and> (\<exists>R. filtered_sorted stable_argsort boundary_df ''Asia'' ''Sales ($billion)'' 5 = Inr R
           \<and> int (length (rows R)) = 4
           \<and> mset (rows R) = mset (matching_rows boundary_df ''Asia''))
   \<and> (\<exists>R. filtered_sorted stable_argsort boundary_df ''Asia'' ''Sales ($billion)'' 3 = Inr R
           \<and> int (length (rows R)) = 3)"
  using rank_length_min[of stable_argsort boundary_df "''Sales ($billion)''" 5 "''Asia''"]
    rank_length_min[of stable_argsort boundary_df "''Sales ($billion)''" 3 "''Asia''"]
    argsort_spec_stable boundary_columns_present boundary_numeric boundary_matching(2)
  by simp

lemma boundary_ranking:
  "filtered_sorted stable_argsort boundary_df ''Asia'' ''Sales ($billion)'' 3
     = Inr (boundary_df\<lparr>rows := [company ''B'' ''Asia'' 30, company ''E'' ''Asia'' 30,
                                   company ''D'' ''Asia'' 20]\<rparr>)"
  by (simp add: filtered_sorted_def filtered_df_def getitem_def getitem_mask_def eq_mask_def
      sort_values_def nargsort_def head_def stable_argsort_def boundary_df_def demo_columns_def
      company_def mk_row_def comparable_def Let_def less_eq_prod_def)

subsection \<open>Rounding to float64\<close>

lemma round_even_err: "\<bar>of_int (round_even y) - y\<bar> \<le> 1/2"
proof -
  have "of_int \<lfloor>y\<rfloor> \<le> y" "y < of_int \<lfloor>y\<rfloor> + 1" by linarith+
  then show ?thesis by (auto simp: round_even_def Let_def)
qed

lemma fl_0: "fl 0 = 0"
  by (simp add: fl_def)

lemma fl_rel: "\<bar>fl x - x\<bar> \<le> \<bar>x\<bar> / 2 ^ 53"
proof (cases "x = 0")
  case True
  then show ?thesis by (simp add: fl_def)
next
  case False
  define e where "e = \<lfloor>log 2 \<bar>x\<bar>\<rfloor>"
  define ulp :: real where "ulp = 2 powr (of_int e - 52)"
  have pos: "0 < ulp" by (simp add: ulp_def)
  have "2 powr (of_int e) \<le> \<bar>x\<bar>"
    using False floor_log_eq_powr_iff[of "\<bar>x\<bar>" 2 e] by (simp add: e_def)
  moreover have "2 powr (of_int e) = ulp * 2 ^ 52"
    by (simp add: ulp_def powr_diff) 
  ultimately have big: "ulp * 2 ^ 52 \<le> \<bar>x\<bar>" by simp
  have flx: "fl x = of_int (round_even (x / ulp)) * ulp"
    using False by (simp add: fl_def Let_def ulp_def e_def)
  have "fl x - x = (of_int (round_even (x / ulp)) - x / ulp) * ulp"
    using pos by (simp add: flx field_simps)
  then have "\<bar>fl x - x\<bar> = \<bar>of_int (round_even (x / ulp)) - x / ulp\<bar> * ulp"
    using pos by (simp add: abs_mult)
  also have "\<dots> \<le> 1/2 * ulp"
    using round_even_err[of "x / ulp"] pos by (intro mult_right_mono) simp_all
  also have "\<dots> \<le> \<bar>x\<bar> / 2 ^ 53" using big by simp
  finally show ?thesis .
qed

lemma fl_eval:
  assumes "2 ^ 52 \<le> \<bar>x\<bar> * 2 ^ k" and "\<bar>x\<bar> * 2 ^ k < 2 ^ 53"
  shows "fl x = of_int (round_even (x * 2 ^ k)) / 2 ^ k"
proof -
  have nz: "x \<noteq> 0" using assms(1) by auto
  have "2 powr (of_int (52 - int k)) \<le> \<bar>x\<bar> \<and> \<bar>x\<bar> < 2 powr (of_int (52 - int k + 1))"
  proof -
    have a: "(2::real) powr (of_int (52 - int k)) = 2 ^ 52 / 2 ^ k"
      by (simp add: powr_diff powr_realpow)
    have b: "(2::real) powr (of_int (52 - int k + 1)) = 2 ^ 53 / 2 ^ k"
      by (simp add: powr_diff powr_add powr_realpow)
    show ?thesis using assms unfolding a b by (simp add: field_simps)
  qed
  then have e: "\<lfloor>log 2 \<bar>x\<bar>\<rfloor> = 52 - int k"
    using nz floor_log_eq_powr_iff[of "\<bar>x\<bar>" 2 "52 - int k"] by simp
  have "(2::real) powr (of_int (52 - int k) - 52) = 1 / 2 ^ k"
    by (simp add: powr_minus powr_realpow inverse_eq_divide)
  then show ?thesis using nz by (simp add: fl_def Let_def e)
qed

lemma round_even_eq:
  assumes "of_int n - 1/2 < y" and "y < of_int n + 1/2"
  shows "round_even y = n"
proof -
  have "\<lfloor>y\<rfloor> = n \<or> \<lfloor>y\<rfloor> = n - 1" using assms by linarith
  then show ?thesis
  proof
    assume f: "\<lfloor>y\<rfloor> = n"
    then have "y - of_int n < 1/2" using assms by simp
    with f show ?thesis by (simp add: round_even_def Let_def)
  next
    assume f: "\<lfloor>y\<rfloor> = n - 1"
    then have "1/2 < y - of_int (n - 1)" using assms by simp
    with f show ?thesis by (simp add: round_even_def Let_def)
  qed
qed

lemma round_even_int: "round_even (of_int n) = n"
  by (rule round_even_eq) simp_all

lemma round_even_tie: "even n \<Longrightarrow> round_even (of_int n + 1/2) = n"
proof -
  assume e: "even n"
  have f: "\<lfloor>of_int n + (1/2::real)\<rfloor> = n" by linarith
  show ?thesis using e by (simp add: round_even_def Let_def f)
qed

lemma fl_exact:
  assumes "x * 2 ^ k = of_int n" and "2 ^ 52 \<le> \<bar>n\<bar>" and "\<bar>n\<bar> < 2 ^ 53"
  shows "fl x = x"
proof -
  have "\<bar>x\<bar> * 2 ^ k = \<bar>x * 2 ^ k\<bar>" by (simp add: abs_mult)
  also have "\<dots> = of_int \<bar>n\<bar>" by (simp add: assms(1))
  finally have a: "\<bar>x\<bar> * 2 ^ k = of_int \<bar>n\<bar>" .
  have "(2::real) ^ 52 \<le> of_int \<bar>n\<bar>" "real_of_int \<bar>n\<bar> < 2 ^ 53"
    using assms(2,3) by (metis of_int_le_iff of_int_numeral of_int_power, metis of_int_less_iff of_int_numeral of_int_power)
  then have "fl x = of_int (round_even (x * 2 ^ k)) / 2 ^ k"
    by (intro fl_eval) (simp_all add: a)
  also have "\<dots> = of_int n / 2 ^ k" by (simp only: assms(1) round_even_int)
  also have "\<dots> = x" by (simp flip: assms(1))
  finally show ?thesis .
qed

lemma fl_round:
  assumes "2 ^ 52 \<le> \<bar>x\<bar> * 2 ^ k" and "\<bar>x\<bar> * 2 ^ k < 2 ^ 53"
    and "of_int n - 1/2 < x * 2 ^ k" and "x * 2 ^ k < of_int n + 1/2"
  shows "fl x = of_int n / 2 ^ k"
  using fl_eval[OF assms(1,2)] round_even_eq[OF assms(3,4)] by simp

lemma fl_tie:
  assumes "2 ^ 52 \<le> \<bar>x\<bar> * 2 ^ k" and "\<bar>x\<bar> * 2 ^ k < 2 ^ 53"
    and "x * 2 ^ k = of_int n + 1/2" and "even n"
  shows "fl x = of_int n / 2 ^ k"
  using fl_eval[OF assms(1,2)] round_even_tie[OF assms(4)] by (simp add: assms(3))

lemma fl_zero_iff: "fl x = 0 \<longleftrightarrow> x = 0"
proof
  assume "fl x = 0"
  with fl_rel[of x] have "\<bar>x\<bar> \<le> \<bar>x\<bar> / 2 ^ 53" by simp
  then have "\<bar>x\<bar> * 2 ^ 53 \<le> \<bar>x\<bar>" by (simp add: field_simps)
  then show "x = 0" by (cases "x = 0") auto
qed (simp add: fl_0)




lemma fl_1: "fl 1 = 1" by (rule fl_exact[where k=52 and n="2^52"]) simp_all
lemma fl_m1: "fl (- 1) = - 1" by (rule fl_exact[where k=52 and n="- (2^52)"]) simp_all
lemma fl_2: "fl 2 = 2" by (rule fl_exact[where k=51 and n="2^52"]) simp_all
lemma fl_3: "fl 3 = 3" by (rule fl_exact[where k=51 and n="3 * 2^51"]) simp_all
lemma fl_6: "fl 6 = 6" by (rule fl_exact[where k=50 and n="3 * 2^51"]) simp_all
lemma fl_half: "fl (1/2) = 1/2" by (rule fl_exact[where k=53 and n="2^52"]) simp_all

subsection \<open>The correlation of numeric columns\<close>

lemma describe_relationship_numeric:
  assumes "x \<in> set (columns D)" and "y \<in> set (columns D)"
    and "numeric_column D x" and "numeric_column D y"
  shows "describe_relationship cc D x y =
     Inr (if valid_pairs D x y = [] then NaN
          else cc (map fst (valid_pairs D x y)) (map snd (valid_pairs D x y)))"
proof -
  let ?a = "map (\<lambda>r. r x) (rows D)" and ?b = "map (\<lambda>r. r y) (rows D)"
  let ?v = "filter (\<lambda>(a, b). a \<noteq> NaN \<and> b \<noteq> NaN) (zip ?a ?b)"
  have nostr: "\<not> ((\<exists>c \<in> set ?a. is_Str c) \<or> (\<exists>c \<in> set ?b. is_Str c))"
    using assms(3,4) by (auto simp: numeric_column_def)
  have vp: "valid_pairs D x y = map (\<lambda>(a, b). (the_num a, the_num b)) ?v"
    by (simp add: valid_pairs_def)
  have f: "map fst (valid_pairs D x y) = map (\<lambda>(x, y). the_num x) ?v"
    unfolding vp by (simp add: case_prod_beta comp_def)
  have s: "map snd (valid_pairs D x y) = map (\<lambda>(x, y). the_num y) ?v"
    unfolding vp by (simp add: case_prod_beta comp_def)
  have e: "valid_pairs D x y = [] \<longleftrightarrow> ?v = []" unfolding vp by simp
  have "series_corr cc ?a ?b =
     Inr (if ?v = [] then NaN
          else cc (map (\<lambda>(x, y). the_num x) ?v) (map (\<lambda>(x, y). the_num y) ?v))"
  proof (cases "?a = []")
    case True
    then have "?v = []" by simp
    with True show ?thesis by (simp add: series_corr_def)
  next
    case False
    with nostr show ?thesis by (simp only: series_corr_def Let_def if_False split: if_splits) simp
  qed
  then show ?thesis
    using assms(1,2) by (simp only: describe_relationship_def getitem_def if_True sum.case f s e)
qed

lemma deviations_constant:
  assumes "\<forall>x \<in> set xs. x = avg xs"
  shows "\<forall>d \<in> set (deviations avg xs). d = 0"
  using assms by (auto simp: deviations_def fl_0)

lemma np_cov_constant_left:
  assumes "dot_of_zeros dot" and "\<forall>x \<in> set xs. x = avg xs"
  shows "np_cov avg dot xs ys = 0"
proof -
  have "dot (deviations avg xs) (deviations avg ys) = 0"
    using assms(1) deviations_constant[where avg=avg, OF assms(2)] by (simp add: dot_of_zeros_def)
  then show ?thesis by (simp add: np_cov_def fl_0)
qed

lemma np_cov_constant_right:
  assumes "dot_of_zeros dot" and "\<forall>y \<in> set ys. y = avg ys"
  shows "np_cov avg dot xs ys = 0"
proof -
  have "dot (deviations avg xs) (deviations avg ys) = 0"
    using assms(1) deviations_constant[where avg=avg, OF assms(2)] by (simp add: dot_of_zeros_def)
  then show ?thesis by (simp add: np_cov_def fl_0)
qed

lemma fp_div_zero_zero: "fp_div (fp_div (Fin 0) a) (Fin 0) = FNaN"
  by (cases a) (simp_all add: fl_0)

lemma fp_div_nan: "fp_div FNaN b = FNaN"
  by (cases b) simp_all

lemma np_corrcoef_constant:
  assumes "dot_of_zeros dot"
    and "(\<forall>x \<in> set xs. x = avg xs) \<or> (\<forall>y \<in> set ys. y = avg ys)"
  shows "np_corrcoef avg dot xs ys = NaN"
proof (cases "length xs < 2")
  case True
  then show ?thesis by (simp add: np_corrcoef_def)
next
  case False
  from assms(2) show ?thesis
  proof
    assume c: "\<forall>x \<in> set xs. x = avg xs"
    have "np_cov avg dot xs ys = 0" "np_cov avg dot xs xs = 0"
      using np_cov_constant_left[where avg=avg, OF assms(1) c] by simp_all
    then show ?thesis using False
      by (simp add: np_corrcoef_def fp_sqrt_def fl_0 fp_div_nan)
  next
    assume c: "\<forall>y \<in> set ys. y = avg ys"
    have "np_cov avg dot xs ys = 0" "np_cov avg dot ys ys = 0"
      using np_cov_constant_right[where avg=avg, OF assms(1) c] by simp_all
    then show ?thesis using False
      by (simp add: np_corrcoef_def fp_sqrt_def[of 0] fl_0 fp_div_zero_zero)
  qed
qed



subsection \<open>The coefficient on the datasets\<close>

lemma round_even_tie_odd: "odd n \<Longrightarrow> round_even (of_int n + 1/2) = n + 1"
proof -
  assume e: "odd n"
  have f: "\<lfloor>of_int n + (1/2::real)\<rfloor> = n" by linarith
  show ?thesis using e by (simp add: round_even_def Let_def f)
qed

lemma fl_tie_odd:
  assumes "2 ^ 52 \<le> \<bar>x\<bar> * 2 ^ k" and "\<bar>x\<bar> * 2 ^ k < 2 ^ 53"
    and "x * 2 ^ k = of_int n + 1/2" and "odd n"
  shows "fl x = of_int (n + 1) / 2 ^ k"
  using fl_eval[OF assms(1,2)] round_even_tie_odd[OF assms(4)] by (simp add: assms(3))

lemma figures_Sales: "figures s p ''Sales ($billion)'' = Num s"
  by (simp add: figures_def mk_row_def)

lemma figures_Profits: "figures s p ''Profits ($billion)'' = Num p"
  by (simp add: figures_def mk_row_def)

lemma spread_columns:
  "''Sales ($billion)'' \<in> set (columns spread_df)" "''Profits ($billion)'' \<in> set (columns spread_df)"
  by (simp_all add: spread_df_def figures_columns_def)

lemma spread_numeric:
  "numeric_column spread_df ''Sales ($billion)''" "numeric_column spread_df ''Profits ($billion)''"
  by (simp_all add: numeric_column_def spread_df_def figures_Sales figures_Profits)

lemma tenths_columns:
  "''Sales ($billion)'' \<in> set (columns tenths_df)" "''Profits ($billion)'' \<in> set (columns tenths_df)"
  by (simp_all add: tenths_df_def figures_columns_def)

lemma tenths_numeric:
  "numeric_column tenths_df ''Sales ($billion)''" "numeric_column tenths_df ''Profits ($billion)''"
  by (simp_all add: numeric_column_def tenths_df_def figures_Sales figures_Profits)


lemma spread_pairs:
  "valid_pairs spread_df ''Sales ($billion)'' ''Profits ($billion)'' = [(0, 1), (2, 1)]"
  by (simp add: valid_pairs_def spread_df_def figures_Sales figures_Profits)

lemma tenths_pairs:
  "valid_pairs tenths_df ''Sales ($billion)'' ''Profits ($billion)''
     = [(tenth, 1), (tenth, 2), (tenth, 3)]"
  by (simp add: valid_pairs_def tenths_df_def figures_Sales figures_Profits)


lemma seq_average_1_1: "seq_average [1, 1] = 1"
  by (simp add: seq_average_def seq_sum_def fl_0 fl_1 fl_2)

lemma seq_average_1_2_3: "seq_average [1, 2, 3] = 2"
  by (simp add: seq_average_def seq_sum_def fl_0 fl_1 fl_2 fl_3 fl_6)


lemma fl_tenth: "fl tenth = tenth"
  unfolding tenth_def by (rule fl_exact[where k=56 and n=7205759403792794]) simp_all

lemma fl_two_tenths: "fl (tenth + tenth) = tenth + tenth"
  unfolding tenth_def by (rule fl_exact[where k=55 and n=7205759403792794]) simp_all

lemma fl_three_tenths: "fl (tenth + tenth + tenth) = 5404319552844596 / 2 ^ 54"
proof -
  have "fl (tenth + tenth + tenth) = of_int (5404319552844595 + 1) / 2 ^ 54"
    unfolding tenth_def by (rule fl_tie_odd) simp_all
  then show ?thesis by simp
qed

lemma seq_sum_tenths: "seq_sum [tenth, tenth, tenth] = 5404319552844596 / 2 ^ 54"
  by (simp only: seq_sum_def foldl.simps add_0 fl_tenth fl_two_tenths fl_three_tenths)

lemma fl_mean_tenths: "fl (5404319552844596 / 2 ^ 54 / 3) = 7205759403792795 / 2 ^ 56"
proof -
  have "fl (5404319552844596 / 2 ^ 54 / 3) = of_int 7205759403792795 / 2 ^ 56"
    by (rule fl_round) simp_all
  then show ?thesis by simp
qed

lemma seq_average_tenths: "seq_average [tenth, tenth, tenth] = 7205759403792795 / 2 ^ 56"
  using fl_mean_tenths by (simp add: seq_average_def seq_sum_tenths del: power_numeral)

lemma fl_dev_tenth: "fl (tenth - 7205759403792795 / 2 ^ 56) = - (1 / 2 ^ 56)"
proof -
  have "tenth - 7205759403792795 / 2 ^ 56 = - (1 / 2 ^ 56)" by (simp add: tenth_def)
  moreover have "fl (- (1 / 2 ^ 56)) = - (1 / 2 ^ 56)"
    by (rule fl_exact[where k=108 and n="- (2 ^ 52)"]) simp_all
  ultimately show ?thesis by simp
qed

lemma deviations_tenths:
  "deviations seq_average [tenth, tenth, tenth] = [- (1 / 2 ^ 56), - (1 / 2 ^ 56), - (1 / 2 ^ 56)]"
  by (simp add: deviations_def seq_average_tenths fl_dev_tenth del: power_numeral)

lemma deviations_1_2_3: "deviations seq_average [1, 2, 3] = [- 1, 0, 1]"
  by (simp add: deviations_def seq_average_1_2_3 fl_0 fl_1 fl_m1)

lemma fl_p112: "fl (1 / 2 ^ 112) = 1 / 2 ^ 112"
  by (rule fl_exact[where k=164 and n="2 ^ 52"]) simp_all

lemma fl_p111: "fl (1 / 2 ^ 112 + 1 / 2 ^ 112) = 1 / 2 ^ 111"
proof -
  have e: "1 / 2 ^ 112 + 1 / 2 ^ 112 = (1 / 2 ^ 111 :: real)" by simp
  have "fl (1 / 2 ^ 111) = 1 / 2 ^ 111"
    by (rule fl_exact[where k=163 and n="2 ^ 52"]) simp_all
  then show ?thesis by (simp only: e)
qed

lemma fl_3p112: "fl (1 / 2 ^ 111 + 1 / 2 ^ 112) = 3 / 2 ^ 112"
proof -
  have e: "1 / 2 ^ 111 + 1 / 2 ^ 112 = (3 / 2 ^ 112 :: real)" by simp
  have "fl (3 / 2 ^ 112) = 3 / 2 ^ 112"
    by (rule fl_exact[where k=163 and n="3 * 2 ^ 51"]) simp_all
  then show ?thesis by (simp only: e)
qed

lemma fl_3p113: "fl (3 / 2 ^ 112 * (1 / 2)) = 3 / 2 ^ 113"
proof -
  have e: "3 / 2 ^ 112 * (1 / 2) = (3 / 2 ^ 113 :: real)" by simp
  have "fl (3 / 2 ^ 113) = 3 / 2 ^ 113"
    by (rule fl_exact[where k=164 and n="3 * 2 ^ 51"]) simp_all
  then show ?thesis by (simp only: e)
qed

lemma fl_p56: "fl (1 / 2 ^ 56) = 1 / 2 ^ 56"
  by (rule fl_exact[where k=108 and n="2 ^ 52"]) simp_all

lemma fl_mp56: "fl (- (1 / 2 ^ 56)) = - (1 / 2 ^ 56)"
  by (rule fl_exact[where k=108 and n="- (2 ^ 52)"]) simp_all

lemma seq_dot_tenths_self:
  "seq_dot [- (1 / 2 ^ 56), - (1 / 2 ^ 56), - (1 / 2 ^ 56)]
           [- (1 / 2 ^ 56), - (1 / 2 ^ 56), - (1 / 2 ^ 56)] = 3 / 2 ^ 112"
proof -
  have p: "- (1 / 2 ^ 56) * - (1 / 2 ^ 56) = (1 / 2 ^ 112 :: real)" by simp
  show ?thesis
    by (simp only: seq_dot_def seq_sum_def zip_Cons_Cons zip_Nil list.map prod.case foldl.simps
        p fl_p112 add_0 fl_p111 fl_3p112)
qed

lemma seq_dot_tenths_cross:
  "seq_dot [- (1 / 2 ^ 56), - (1 / 2 ^ 56), - (1 / 2 ^ 56)] [- 1, 0, 1] = 0"
proof -
  have p: "- (1 / 2 ^ 56) * - 1 = (1 / 2 ^ 56 :: real)" "- (1 / 2 ^ 56) * 0 = (0 :: real)"
    "- (1 / 2 ^ 56) * 1 = (- (1 / 2 ^ 56) :: real)" by simp_all
  have q: "1 / 2 ^ 56 + - (1 / 2 ^ 56) = (0::real)" by simp
  show ?thesis
    by (simp only: seq_dot_def seq_sum_def zip_Cons_Cons zip_Nil list.map prod.case foldl.simps
        p fl_p56 fl_mp56 fl_0 add_0 add_0_right q)
qed

lemma seq_dot_1_2_3: "seq_dot [- 1, 0, 1] [- 1, 0, 1] = 2"
  by (simp add: seq_dot_def seq_sum_def fl_0 fl_1 fl_2)

lemma np_cov_tenths_self:
  "np_cov seq_average seq_dot [tenth, tenth, tenth] [tenth, tenth, tenth] = 3 / 2 ^ 113"
proof -
  have n: "fl (1 / real (length [tenth, tenth, tenth] - 1)) = 1 / 2" using fl_half by simp
  show ?thesis
    by (simp only: np_cov_def deviations_tenths seq_dot_tenths_self n fl_3p113)
qed

lemma np_cov_tenths_cross:
  "np_cov seq_average seq_dot [tenth, tenth, tenth] [1, 2, 3] = 0"
  by (simp only: np_cov_def deviations_tenths deviations_1_2_3 seq_dot_tenths_cross
      mult_zero_left fl_0)

lemma np_cov_1_2_3: "np_cov seq_average seq_dot [1, 2, 3] [1, 2, 3] = 1"
proof -
  have n: "fl (1 / real (length [1::real, 2, 3] - 1)) = 1 / 2" using fl_half by simp
  have "fl (2 * (1 / 2)) = 1" using fl_1 by simp
  then show ?thesis
    by (simp only: np_cov_def deviations_1_2_3 seq_dot_1_2_3 n)
qed

lemma np_corrcoef_zero_cov:
  assumes "2 \<le> length xs" and "np_cov avg dot xs ys = 0"
    and "0 < np_cov avg dot xs xs" and "0 < np_cov avg dot ys ys"
  shows "np_corrcoef avg dot xs ys = Num 0"
proof -
  have "fl (sqrt (np_cov avg dot xs xs)) \<noteq> 0" "fl (sqrt (np_cov avg dot ys ys)) \<noteq> 0"
    using assms(3,4) by (simp_all add: fl_zero_iff)
  then show ?thesis using assms by (simp add: np_corrcoef_def fp_sqrt_def fl_0)
qed

lemma np_corrcoef_tenths:
  "np_corrcoef seq_average seq_dot [tenth, tenth, tenth] [1, 2, 3] = Num 0"
  by (rule np_corrcoef_zero_cov) (simp_all add: np_cov_tenths_self np_cov_tenths_cross np_cov_1_2_3)







subsection \<open>Claims about the correlation\<close>


lemma tenths_sales: "getitem tenths_df ''Sales ($billion)'' = Inr [Num tenth, Num tenth, Num tenth]"
  by (simp add: getitem_def tenths_df_def figures_columns_def figures_Sales)


lemma tenths_correlation:
  "describe_relationship (np_corrcoef seq_average seq_dot) tenths_df
       ''Sales ($billion)'' ''Profits ($billion)'' = Inr (Num 0)"
  by (simp add: describe_relationship_numeric[OF tenths_columns tenths_numeric] tenths_pairs
      np_corrcoef_tenths)


lemma dot_of_zeros_seq_dot: "dot_of_zeros seq_dot"
proof -
  have z: "foldl (\<lambda>a x. fl (a + x)) 0 zs = 0" if "\<forall>z \<in> set zs. z = 0" for zs
    using that by (induction zs) (simp_all add: fl_0)
  have "seq_dot xs ys = 0" if "(\<forall>x \<in> set xs. x = 0) \<or> (\<forall>y \<in> set ys. y = 0)" for xs ys
  proof -
    have "fl (a * b) = 0" if "(a, b) \<in> set (zip xs ys)" for a b
    proof -
      from that have "a \<in> set xs" "b \<in> set ys"
        by (rule set_zip_leftD, rule set_zip_rightD)
      with \<open>(\<forall>x \<in> set xs. x = 0) \<or> (\<forall>y \<in> set ys. y = 0)\<close> have "a * b = 0" by auto
      then show ?thesis by (simp only: fl_0)
    qed
    then have "\<forall>z \<in> set (map (\<lambda>(x, y). fl (x * y)) (zip xs ys)). z = 0" by auto
    then show ?thesis unfolding seq_dot_def seq_sum_def by (rule z)
  qed
  then show ?thesis by (simp add: dot_of_zeros_def)
qed

text \<open>When no valid pair exists pandas answers NaN itself, whatever \<^verbatim>\<open>corrcoef\<close> does.\<close>

lemma describe_relationship_no_pair:
  assumes "x \<in> set (columns D)" and "y \<in> set (columns D)"
    and "numeric_column D x" and "numeric_column D y"
    and "valid_pairs D x y = []"
  shows "describe_relationship cc D x y = Inr NaN"
  by (simp add: describe_relationship_numeric[OF assms(1-4)] assms(5))

text \<open>
  Claim C4, as stated: the correlation is undefined (NaN) whenever fewer than two valid
  pairs exist or the present values of one of the columns are constant. In \<open>tenths_df\<close>
  the sales are the same float in every row. Their float64 sum is rounded, the mean that
  numpy computes differs from the value in the last bit, and the deviations are not 0
  but \<open>- 1 / 2 ^ 56\<close>: the computed variance is positive, the computed covariance with
  the profits 1, 2, 3 is 0, and the coefficient is the number 0.
\<close>

theorem correlation_constant_column_counterexample:
  "getitem tenths_df ''Sales ($billion)'' = Inr [Num tenth, Num tenth, Num tenth]
   \<and> describe_relationship (np_corrcoef seq_average seq_dot) tenths_df
       ''Sales ($billion)'' ''Profits ($billion)'' = Inr (Num 0)
   \<and> describe_relationship (np_corrcoef seq_average seq_dot) tenths_df
       ''Sales ($billion)'' ''Profits ($billion)'' \<noteq> Inr NaN"
  by (simp add: tenths_sales tenths_correlation)

text \<open>
  Claim C4, amended: for columns without text, the correlation is NaN whenever fewer
  than two valid pairs exist, or the paired values of one of the columns all equal the
  mean that numpy computes for them (the column is constant and its mean is computed
  without rounding error). For a constant column whose computed mean differs from its
  value the result is what the float64 arithmetic gives, which can be a number.
\<close>

theorem correlation_undefined:
  assumes "x \<in> set (columns D)" and "y \<in> set (columns D)"
    and "numeric_column D x" and "numeric_column D y"
    and "length (valid_pairs D x y) < 2
       \<or> dot_of_zeros dot
         \<and> ((\<forall>p \<in> set (valid_pairs D x y). fst p = avg (map fst (valid_pairs D x y)))
            \<or> (\<forall>p \<in> set (valid_pairs D x y). snd p = avg (map snd (valid_pairs D x y))))"
  shows "describe_relationship (np_corrcoef avg dot) D x y = Inr NaN"
proof -
  let ?xs = "map fst (valid_pairs D x y)" and ?ys = "map snd (valid_pairs D x y)"
  have "np_corrcoef avg dot ?xs ?ys = NaN"
  proof (cases "length (valid_pairs D x y) < 2")
    case True
    then show ?thesis by (simp add: np_corrcoef_def)
  next
    case False
    with assms(5) have d: "dot_of_zeros dot"
      and "(\<forall>a \<in> set ?xs. a = avg ?xs) \<or> (\<forall>b \<in> set ?ys. b = avg ?ys)" by auto
    then show ?thesis by (intro np_corrcoef_constant)
  qed
  then show ?thesis
    by (simp add: describe_relationship_numeric[OF assms(1-4)])
qed

lemma spread_profits_constant:
  "\<forall>p \<in> set (valid_pairs spread_df ''Sales ($billion)'' ''Profits ($billion)'').
      snd p = seq_average (map snd (valid_pairs spread_df ''Sales ($billion)'' ''Profits ($billion)''))"
  by (simp add: spread_pairs seq_average_1_1)

theorem correlation_undefined_witness:
  "''Sales ($billion)'' \<in> set (columns spread_df) \<and> ''Profits ($billion)'' \<in> set (columns spread_df)
   \<and> numeric_column spread_df ''Sales ($billion)'' \<and> numeric_column spread_df ''Profits ($billion)''
   \<and> dot_of_zeros seq_dot
   \<and> valid_pairs spread_df ''Sales ($billion)'' ''Profits ($billion)'' = [(0, 1), (2, 1)]
   \<and> seq_average [1, 1] = 1
   \<and> describe_relationship (np_corrcoef seq_average seq_dot) spread_df
        ''Sales ($billion)'' ''Profits ($billion)'' = Inr NaN"
  using correlation_undefined[of "''Sales ($billion)''" spread_df "''Profits ($billion)''" seq_dot seq_average]
    spread_columns spread_numeric dot_of_zeros_seq_dot spread_profits_constant
    spread_pairs seq_average_1_1
  by simp






subsection \<open>Claims about the column means\<close>

lemma series_mean_numeric:
  assumes "\<forall>c \<in> set ser. \<not> is_Str c"
  shows "\<exists>m. series_mean ser = Inr m"
  using assms by (simp add: series_mean_def Let_def)

lemma getitem_numeric:
  assumes "col \<in> set (columns df)" and "numeric_column df col"
  shows "\<exists>ser. getitem df col = Inr ser \<and> (\<forall>c \<in> set ser. \<not> is_Str c)"
  using assms by (auto simp: getitem_def numeric_column_def)

lemma column_means_KeyError:
  assumes "\<exists>c \<in> set cols. c \<notin> set (columns df)"
    and "\<forall>c \<in> set cols. c \<in> set (columns df) \<longrightarrow> numeric_column df c"
  shows "\<exists>k. column_means df cols = Inl (KeyError k)"
  using assms
proof (induction cols)
  case Nil
  then show ?case by simp
next
  case (Cons col cols)
  show ?case
  proof (cases "col \<in> set (columns df)")
    case False
    then show ?thesis by (simp add: getitem_def)
  next
    case True
    with Cons.prems(2) have "numeric_column df col" by simp
    from getitem_numeric[OF True this] obtain ser
      where ser: "getitem df col = Inr ser" "\<forall>c \<in> set ser. \<not> is_Str c" by blast
    from series_mean_numeric[OF ser(2)] obtain m where m: "series_mean ser = Inr m" by blast
    from True Cons.prems(1) have "\<exists>c \<in> set cols. c \<notin> set (columns df)" by auto
    moreover from Cons.prems(2)
    have "\<forall>c \<in> set cols. c \<in> set (columns df) \<longrightarrow> numeric_column df c" by simp
    ultimately obtain k where "column_means df cols = Inl (KeyError k)"
      using Cons.IH by blast
    with ser(1) m show ?thesis by simp
  qed
qed

lemma column_means_length:
  "column_means df cols = Inr ms \<Longrightarrow> length ms = length cols"
proof (induction cols arbitrary: ms)
  case Nil
  then show ?case by simp
next
  case (Cons col cols)
  then show ?case by (auto split: sum.splits)
qed

lemma column_means_all_present:
  assumes "\<forall>c \<in> set cols. c \<in> set (columns df) \<and> numeric_column df c"
  shows "\<exists>ms. column_means df cols = Inr ms"
  using assms
proof (induction cols)
  case Nil
  then show ?case by simp
next
  case (Cons col cols)
  then have c: "col \<in> set (columns df)" "numeric_column df col" by simp_all
  from getitem_numeric[OF c] obtain ser
    where ser: "getitem df col = Inr ser" "\<forall>c \<in> set ser. \<not> is_Str c" by blast
  from series_mean_numeric[OF ser(2)] obtain m where m: "series_mean ser = Inr m" by blast
  from Cons obtain ms where "column_means df cols = Inr ms" by auto
  with ser(1) m show ?case by simp
qed

lemma column_means_numeric:
  assumes "\<forall>c \<in> set cols. c \<in> set (columns df) \<longrightarrow> numeric_column df c"
  shows "(\<exists>ms. column_means df cols = Inr ms) \<or> (\<exists>k. column_means df cols = Inl (KeyError k))"
proof (cases "\<exists>c \<in> set cols. c \<notin> set (columns df)")
  case True
  from column_means_KeyError[OF this assms] show ?thesis by blast
next
  case False
  with assms have "\<forall>c \<in> set cols. c \<in> set (columns df) \<and> numeric_column df c" by blast
  from column_means_all_present[OF this] show ?thesis by blast
qed

lemma demo_no_such_column: "''NoSuchColumn'' \<notin> set (columns demo_df)"
  by (simp add: demo_df_def demo_columns_def)

text \<open>
  Claim C3. Let every requested column that the frame has be numeric. When at least one
  requested column is absent from the frame, \<open>safe_get_columns\<close> does not raise and
  returns 0 for every requested column, also for those that the frame has.
\<close>

theorem safe_get_columns_all_zero:
  assumes "\<exists>c \<in> set cols. c \<notin> set (columns D)"
    and "\<forall>c \<in> set cols. c \<in> set (columns D) \<longrightarrow> numeric_column D c"
  shows "safe_get_columns D cols = Inr (map (\<lambda>_. Num 0) cols)"
proof -
  from column_means_KeyError[OF assms] obtain k where "column_means D cols = Inl (KeyError k)"
    by blast
  then show ?thesis by (simp add: safe_get_columns_def)
qed

theorem safe_get_columns_all_zero_witness:
  "''Sales ($billion)'' \<in> set (columns demo_df) \<and> numeric_column demo_df ''Sales ($billion)''
   \<and> ''NoSuchColumn'' \<notin> set (columns demo_df)
   \<and> safe_get_columns demo_df [''Sales ($billion)'', ''NoSuchColumn''] = Inr [Num 0, Num 0]"
proof -
  have a: "\<exists>c \<in> set [''Sales ($billion)'', ''NoSuchColumn'']. c \<notin> set (columns demo_df)"
    using demo_no_such_column by simp
  have b: "\<forall>c \<in> set [''Sales ($billion)'', ''NoSuchColumn''].
             c \<in> set (columns demo_df) \<longrightarrow> numeric_column demo_df c"
    using demo_no_such_column demo_numeric by simp
  from safe_get_columns_all_zero[OF a b] demo_columns_present demo_numeric demo_no_such_column
  show ?thesis by simp
qed

text \<open>
  Claim C10. Whenever \<open>safe_get_columns\<close> returns a list, by the comprehension or by the
  KeyError fallback, the list is as long as the list of requested columns; and it does
  return a list when every requested column that the frame has is numeric.
\<close>

theorem safe_get_columns_length:
  "(safe_get_columns D cols = Inr ys \<longrightarrow> length ys = length cols)
   \<and> ((\<forall>c \<in> set cols. c \<in> set (columns D) \<longrightarrow> numeric_column D c)
        \<longrightarrow> (\<exists>zs. safe_get_columns D cols = Inr zs))"
proof (intro conjI impI)
  assume "safe_get_columns D cols = Inr ys"
  then show "length ys = length cols"
    by (auto simp: safe_get_columns_def column_means_length split: sum.splits error.splits)
next
  assume "\<forall>c \<in> set cols. c \<in> set (columns D) \<longrightarrow> numeric_column D c"
  from column_means_numeric[OF this] show "\<exists>zs. safe_get_columns D cols = Inr zs"
    by (auto simp: safe_get_columns_def)
qed

lemma demo_sales_mean: "safe_get_columns demo_df [''Sales ($billion)''] = Inr [Num 20]"
  by (simp add: safe_get_columns_def getitem_def series_mean_def demo_df_def demo_columns_def
      company_Sales Let_def)

theorem safe_get_columns_length_witness:
  "safe_get_columns demo_df [''Sales ($billion)''] = Inr [Num 20]
   \<and> length [Num 20] = length [''Sales ($billion)'']
   \<and> numeric_column demo_df ''Sales ($billion)''
   \<and> (\<exists>zs. safe_get_columns demo_df [''Sales ($billion)''] = Inr zs)"
  using safe_get_columns_length[of demo_df "[''Sales ($billion)'']" "[Num 20]"]
    demo_sales_mean demo_numeric
  by simp

subsection \<open>Claims about the dataset as an object\<close>

lemma rank_by_metric_extends:
  assumes "rank_by_metric kind d c m n s = (r, s')"
  shows "\<exists>ext. s' = s @ ext"
  using assms
  by (auto simp: rank_by_metric_def alloc_def Let_def split: sum.splits)

lemma rank_by_metric_value:
  assumes "d < length s" and "rank_by_metric kind d c m n s = (r, s')"
  shows "map_sum id (\<lambda>a. s' ! a) r = filtered_sorted kind (s ! d) c m n"
  using assms
  by (auto simp: rank_by_metric_def filtered_sorted_def alloc_def Let_def nth_append
      split: sum.splits)

lemma rank_by_metric_address:
  assumes "rank_by_metric kind d c m n s = (Inr a, s')"
  shows "a < length s'"
  using assms
  by (auto simp: rank_by_metric_def alloc_def Let_def split: sum.splits)

lemma exec_call_extends:
  assumes "exec_call kind cc d call s = (r, s')"
  shows "\<exists>ext. s' = s @ ext"
proof (cases call)
  case (RankByMetric c m n)
  with assms obtain r0 where "rank_by_metric kind d c m n s = (r0, s')"
    by (auto split: prod.splits)
  then show ?thesis by (rule rank_by_metric_extends)
next
  case (Correlation x y)
  with assms show ?thesis by simp
next
  case (SafeColumnMeans cols)
  with assms show ?thesis by simp
qed

lemma run_calls_extends: "\<exists>ext. snd (run_calls kind cc d cs s) = s @ ext"
proof (induction cs arbitrary: s)
  case Nil
  then show ?case by simp
next
  case (Cons call cs)
  obtain r s1 where e: "exec_call kind cc d call s = (r, s1)"
    by (cases "exec_call kind cc d call s")
  from exec_call_extends[OF e] obtain ext1 where s1: "s1 = s @ ext1" by blast
  from Cons.IH[of s1] obtain ext2 where "snd (run_calls kind cc d cs s1) = s1 @ ext2" by blast
  with s1 e show ?case by (auto split: prod.splits)
qed

lemma observe_rank:
  assumes "d < length s" and "exec_call kind cc d (RankByMetric c m n) s = (out, s')"
  shows "observe s' out = map_sum id Frame (filtered_sorted kind (s ! d) c m n)"
proof -
  from assms(2) obtain r
    where r: "rank_by_metric kind d c m n s = (r, s')" "out = map_sum id Ranked r"
    by (auto split: prod.splits)
  from rank_by_metric_value[OF assms(1) r(1)]
  have "filtered_sorted kind (s ! d) c m n = map_sum id (\<lambda>a. s' ! a) r" by simp
  then show ?thesis
    unfolding r(2) by (cases r) simp_all
qed

lemma observe_kept:
  assumes "exec_call kind cc d (RankByMetric c m n) s = (out, s')"
  shows "observe (s' @ ext) out = observe s' out"
proof -
  from assms obtain r
    where r: "rank_by_metric kind d c m n s = (r, s')" "out = map_sum id Ranked r"
    by (auto split: prod.splits)
  show ?thesis
  proof (cases r)
    case (Inl e)
    then show ?thesis by (simp add: r(2))
  next
    case (Inr a)
    with r(1) have "a < length s'" by (simp add: rank_by_metric_address)
    with Inr show ?thesis by (simp add: r(2) nth_append)
  qed
qed

lemma rank_twice:
  assumes "d < length s"
    and "exec_call kind cc d (RankByMetric c m n) s = (out1, s1)"
    and "run_calls kind cc d cs s1 = (outs, s2)"
    and "exec_call kind cc d (RankByMetric c m n) s2 = (out2, s3)"
  shows "observe s3 out2 = observe s1 out1 \<and> observe s3 out1 = observe s1 out1
         \<and> observe s1 out1 = map_sum id Frame (filtered_sorted kind (s ! d) c m n)"
proof -
  from exec_call_extends[OF assms(2)] obtain e1 where s1: "s1 = s @ e1" by blast
  from run_calls_extends[of kind cc d cs s1] assms(3) obtain e2 where s2: "s2 = s1 @ e2" by auto
  from exec_call_extends[OF assms(4)] obtain e3 where s3: "s3 = s2 @ e3" by blast
  have d2: "d < length s2" and same: "s2 ! d = s ! d"
    using assms(1) by (simp_all add: s1 s2 nth_append)
  have first: "observe s1 out1 = map_sum id Frame (filtered_sorted kind (s ! d) c m n)"
    by (rule observe_rank[OF assms(1,2)])
  have "observe s3 out2 = map_sum id Frame (filtered_sorted kind (s2 ! d) c m n)"
    by (rule observe_rank[OF d2 assms(4)])
  with first have a: "observe s3 out2 = observe s1 out1" by (simp add: same)
  have "s3 = s1 @ (e2 @ e3)" by (simp add: s2 s3)
  then have b: "observe s3 out1 = observe s1 out1"
    using observe_kept[OF assms(2), of "e2 @ e3"] by simp
  from a b first show ?thesis by blast
qed

text \<open>
  Claim C8. Let \<open>d\<close> be the address of the dataset. Rank once, make any sequence of
  query calls, and rank again with the same continent, metric and \<open>top_n\<close>: the second
  call shows the caller what the first one showed (the same frame, or the same error),
  the first output still shows the same, and what is shown is the value of
  \<open>filtered_sorted\<close> at the dataset and the arguments, whatever else the store holds.
\<close>

theorem rank_twice_same_output:
  assumes "d < length s"
  shows "(case exec_call kind cc d (RankByMetric c m n) s of (out1, s1) \<Rightarrow>
          case run_calls kind cc d cs s1 of (outs, s2) \<Rightarrow>
          case exec_call kind cc d (RankByMetric c m n) s2 of (out2, s3) \<Rightarrow>
            observe s3 out2 = observe s1 out1 \<and> observe s3 out1 = observe s1 out1
            \<and> observe s1 out1 = map_sum id Frame (filtered_sorted kind (s ! d) c m n))"
proof -
  obtain out1 s1 where e1: "exec_call kind cc d (RankByMetric c m n) s = (out1, s1)"
    by (cases "exec_call kind cc d (RankByMetric c m n) s")
  obtain outs s2 where r: "run_calls kind cc d cs s1 = (outs, s2)"
    by (cases "run_calls kind cc d cs s1")
  obtain out2 s3 where e2: "exec_call kind cc d (RankByMetric c m n) s2 = (out2, s3)"
    by (cases "exec_call kind cc d (RankByMetric c m n) s2")
  from rank_twice[OF assms e1 r e2] show ?thesis
    by (simp only: e1 r e2 prod.case)
qed

theorem rank_twice_same_output_witness:
  "(0::nat) < length [demo_df]
   \<and> (case exec_call stable_argsort (\<lambda>xs ys. NaN) 0 (RankByMetric ''Asia'' ''Sales ($billion)'' 5)
             [demo_df] of (out1, s1) \<Rightarrow>
       case run_calls stable_argsort (\<lambda>xs ys. NaN) 0
             [Correlation ''Sales ($billion)'' ''Sales ($billion)'',
              SafeColumnMeans [''Sales ($billion)'']] s1 of (outs, s2) \<Rightarrow>
       case exec_call stable_argsort (\<lambda>xs ys. NaN) 0 (RankByMetric ''Asia'' ''Sales ($billion)'' 5)
             s2 of (out2, s3) \<Rightarrow>
         observe s3 out2 = observe s1 out1 \<and> observe s3 out1 = observe s1 out1
         \<and> observe s1 out1
             = map_sum id Frame
                 (filtered_sorted stable_argsort ([demo_df] ! 0) ''Asia'' ''Sales ($billion)'' 5))"
proof -
  have h: "(0::nat) < length [demo_df]" by simp
  show ?thesis by (intro conjI h rank_twice_same_output[OF h])
qed

text \<open>
  Claim C9. Let \<open>d\<close> be the address of the dataset. After any sequence of calls of the
  three query operations the store holds at \<open>d\<close> the frame it held before, with the same
  columns and the same rows in the same order; so does every other frame that existed
  before the calls.
\<close>

theorem dataset_unchanged:
  assumes "d < length s"
  shows "snd (run_calls kind cc d cs s) ! d = s ! d
         \<and> take (length s) (snd (run_calls kind cc d cs s)) = s"
proof -
  from run_calls_extends[of kind cc d cs s] obtain ext
    where "snd (run_calls kind cc d cs s) = s @ ext" by blast
  with assms show ?thesis by (simp add: nth_append)
qed

theorem dataset_unchanged_witness:
  "(0::nat) < length [demo_df]
   \<and> snd (run_calls stable_argsort (\<lambda>xs ys. NaN) 0
            [RankByMetric ''Asia'' ''Sales ($billion)'' 5,
             Correlation ''Sales ($billion)'' ''Sales ($billion)'',
             SafeColumnMeans [''Sales ($billion)'', ''NoSuchColumn'']] [demo_df]) ! 0
       = [demo_df] ! 0
   \<and> take (length [demo_df])
         (snd (run_calls stable_argsort (\<lambda>xs ys. NaN) 0
            [RankByMetric ''Asia'' ''Sales ($billion)'' 5,
             Correlation ''Sales ($billion)'' ''Sales ($billion)'',
             SafeColumnMeans [''Sales ($billion)'', ''NoSuchColumn'']] [demo_df]))
       = [demo_df]"
proof -
  have h: "(0::nat) < length [demo_df]" by simp
  show ?thesis by (intro conjI h dataset_unchanged[OF h, THEN conjunct1]
      dataset_unchanged[OF h, THEN conjunct2])
qed

end
